theory Spec2Isabelle
  imports Complex_Main "HOL-Library.FSet" "HOL-Library.Char_ord" "HOL-Library.List_Lexorder"
    "HOL-Library.Multiset"
begin

section \<open>The review hook: hooks/query\_hook.js\<close>

text \<open>
  The hook is a Node script. Its \<open>main\<close> is a sequence of statements, any of which may
  end the process (\<open>process.exit\<close>) or throw; the script's last statement attaches a
  handler to \<open>main()\<close> that reports a thrown error and exits with status 1.
  The values it handles come from \<open>JSON.parse\<close>, so they are JavaScript values.
\<close>

datatype js_value =
    JUndefined
  | JNull
  | JBool bool
  | JNum real
  | JStr string
  | JArr "js_value list"
  | JObj "(string \<times> js_value) list"

text \<open>
  JavaScript truthiness, as \<open>if (v)\<close> and \<open>!v\<close> read it; \<open>a || b\<close> is \<open>a\<close> when
  \<open>a\<close> is truthy and \<open>b\<close>, evaluated only then, otherwise.
\<close>

fun truthy :: "js_value \<Rightarrow> bool" where
  "truthy JUndefined = False"
| "truthy JNull = False"
| "truthy (JBool b) = b"
| "truthy (JNum x) = (x \<noteq> 0)"
| "truthy (JStr s) = (s \<noteq> [])"
| "truthy (JArr _) = True"
| "truthy (JObj _) = True"

text \<open>What the process does that an observer can see, in order.\<close>

datatype event =
    ReadStdin
  | ParseJson
  | CallQuery string js_value
  | WriteStderr string

text \<open>
  A statement either ends the process with an exit status, throws, or yields a value
  for the statements after it.
\<close>

datatype 'a outcome = Exited nat | Threw string | Yield 'a

type_synonym 'a proc = "event list \<times> 'a outcome"

definition bind_proc :: "'a proc \<Rightarrow> ('a \<Rightarrow> 'b proc) \<Rightarrow> 'b proc" where
  "bind_proc m f =
     (case m of
        (t, Exited c) \<Rightarrow> (t, Exited c)
      | (t, Threw e) \<Rightarrow> (t, Threw e)
      | (t, Yield a) \<Rightarrow> (case f a of (t', r) \<Rightarrow> (t @ t', r)))"

definition process_exit :: "nat \<Rightarrow> 'a proc" where
  "process_exit c = ([], Exited c)"

definition throw :: "string \<Rightarrow> 'a proc" where
  "throw e = ([], Threw e)"

definition yield :: "'a \<Rightarrow> 'a proc" where
  "yield a = ([], Yield a)"

definition emit :: "event \<Rightarrow> unit proc" where
  "emit ev = ([ev], Yield ())"

text \<open>
  Reading a property: of \<open>undefined\<close> or \<open>null\<close> it throws a TypeError, of an object
  it is the stored value or \<open>undefined\<close>, and none of the keys the hook reads is a
  property of a number, a string, a boolean or an array.
\<close>

fun get_prop :: "js_value \<Rightarrow> string \<Rightarrow> js_value proc" where
  "get_prop JUndefined k = throw ''TypeError''"
| "get_prop JNull k = throw ''TypeError''"
| "get_prop (JObj kvs) k = yield (case map_of kvs k of None \<Rightarrow> JUndefined | Some v \<Rightarrow> v)"
| "get_prop v k = yield JUndefined"

text \<open>A message of the agent SDK's \<open>query\<close> stream, with the fields the hook reads.\<close>

record sdk_message =
  msg_type :: string
  msg_subtype :: string
  msg_result :: string

text \<open>
  The collaborators of the script: the text on standard input, \<open>JSON.parse\<close>
  (\<open>None\<close>: a SyntaxError), \<open>process.cwd()\<close>, \<open>path.sep\<close>, \<open>path.resolve\<close> on
  its argument list, and the SDK's \<open>query\<close>, which answers the prompt built from the
  file path and the new content with its messages (\<open>None\<close>: the stream throws).
\<close>

record hook_env =
  stdin_data :: string
  json_parse :: "string \<Rightarrow> js_value option"
  cwd :: string
  path_sep :: string
  path_resolve :: "string list \<Rightarrow> string"
  run_query :: "string \<Rightarrow> js_value \<Rightarrow> sdk_message list option"

definition REVIEW_DIR :: string where
  "REVIEW_DIR = ''src/queries''"

text \<open>\<open>String.prototype.startsWith\<close> and \<open>String.prototype.includes\<close>.\<close>

fun starts_with :: "string \<Rightarrow> string \<Rightarrow> bool" where
  "starts_with s [] = True"
| "starts_with [] (p # ps) = False"
| "starts_with (c # cs) (p # ps) = (c = p \<and> starts_with cs ps)"

fun str_includes :: "string \<Rightarrow> string \<Rightarrow> bool" where
  "str_includes [] t = (t = [])"
| "str_includes (c # cs) t = (starts_with (c # cs) t \<or> str_includes cs t)"

definition read_stdin :: "hook_env \<Rightarrow> string proc" where
  "read_stdin env = ([ReadStdin], Yield (stdin_data env))"

definition parse_input :: "hook_env \<Rightarrow> string \<Rightarrow> js_value proc" where
  "parse_input env s =
     (case json_parse env s of
        None \<Rightarrow> ([ParseJson], Threw ''SyntaxError'')
      | Some v \<Rightarrow> ([ParseJson], Yield v))"

text \<open>\<open>path.resolve(filePath)\<close> throws a TypeError unless its argument is a string.\<close>

definition resolve_file :: "hook_env \<Rightarrow> js_value \<Rightarrow> string proc" where
  "resolve_file env v =
     (case v of JStr s \<Rightarrow> yield (path_resolve env [s]) | _ \<Rightarrow> throw ''TypeError'')"

definition call_query :: "hook_env \<Rightarrow> string \<Rightarrow> js_value \<Rightarrow> sdk_message list proc" where
  "call_query env file new_content =
     (case run_query env file new_content of
        None \<Rightarrow> ([CallQuery file new_content], Threw ''query failed'')
      | Some ms \<Rightarrow> ([CallQuery file new_content], Yield ms))"

text \<open>The statements of \<open>main\<close> from the analysis result on (lines 69 to 81).\<close>

definition judge :: "sdk_message list \<Rightarrow> unit proc" where
  "judge messages =
     (case find (\<lambda>m. msg_type m = ''result'') messages of
        None \<Rightarrow> process_exit 0
      | Some resultMessage \<Rightarrow>
          if msg_subtype resultMessage \<noteq> ''success'' then process_exit 0
          else if str_includes (msg_result resultMessage) ''Changes look appropriate''
          then process_exit 0
          else bind_proc
                 (emit (WriteStderr (''Query duplication detected:'' @ [CHR 0x0A, CHR 0x0A]
                    @ msg_result resultMessage)))
                 (\<lambda>_. process_exit 2))"

text \<open>The statements of \<open>main\<close> after its first one (lines 10 to 81), in order.\<close>

definition main_rest :: "hook_env \<Rightarrow> unit proc" where
  "main_rest env =
     bind_proc (read_stdin env) (\<lambda>input.
     bind_proc (parse_input env input) (\<lambda>hookData.
     bind_proc (get_prop hookData ''tool_input'') (\<lambda>toolInput.
     bind_proc (get_prop toolInput ''file_path'') (\<lambda>fp1.
     bind_proc (if truthy fp1 then yield fp1 else get_prop toolInput ''path'') (\<lambda>filePath.
     if \<not> truthy filePath then process_exit 0
     else
     bind_proc (resolve_file env filePath) (\<lambda>normalizedFilePath.
     let queriesDir = path_resolve env [cwd env, REVIEW_DIR] in
     if \<not> starts_with normalizedFilePath (queriesDir @ path_sep env) then process_exit 0
     else
     bind_proc (get_prop toolInput ''content'') (\<lambda>c1.
     bind_proc (if truthy c1 then yield c1 else get_prop toolInput ''contents'') (\<lambda>c2.
     bind_proc (if truthy c2 then yield c2 else get_prop toolInput ''new_string'') (\<lambda>newContent.
     bind_proc (call_query env (case filePath of JStr s \<Rightarrow> s | _ \<Rightarrow> []) newContent) judge)))))))))"

text \<open>\<open>main\<close>: its first statement is \<open>process.exit(0)\<close> (line 9).\<close>

definition main :: "hook_env \<Rightarrow> unit proc" where
  "main env = bind_proc (process_exit 0 :: unit proc) (\<lambda>_. main_rest env)"

text \<open>
  The script: \<open>main().catch(err => { console.error(...); process.exit(1) })\<close>.
  A process whose \<open>main\<close> returns with nothing left to do ends with status 0.
\<close>

definition run_hook :: "hook_env \<Rightarrow> event list \<times> nat" where
  "run_hook env =
     (case main env of
        (t, Exited c) \<Rightarrow> (t, c)
      | (t, Threw e) \<Rightarrow> (t @ [WriteStderr (''Hook error: '' @ e)], 1)
      | (t, Yield _) \<Rightarrow> (t, 0))"

text \<open>
  An environment in which the statements after the first would block: a write to
  \<open>src/queries\<close> that the review finds to be a duplicate.
\<close>

definition blocking_env :: hook_env where
  "blocking_env =
     \<lparr> stdin_data = ''input'',
       json_parse = (\<lambda>_. Some (JObj [(''tool_input'',
           JObj [(''file_path'', JStr ''/w/src/queries/a.ts''), (''content'', JStr ''x'')])])),
       cwd = ''/w'',
       path_sep = ''/'',
       path_resolve = (\<lambda>ps. if ps = [''/w'', ''src/queries''] then ''/w/src/queries'' else last ps),
       run_query = (\<lambda>_ _. Some [\<lparr> msg_type = ''result'', msg_subtype = ''success'',
           msg_result = ''Use getOrderDetails instead.'' \<rparr>]) \<rparr>"

section \<open>Database access\<close>

text \<open>
  The query modules use the sqlite wrapper: \<open>db.all(query, params)\<close> resolves to the
  array of result rows and \<open>db.get(query, params)\<close> to the first row or
  \<open>undefined\<close>; a row is an object with one property per result column. Either
  call rejects when the statement fails, for one when it names a column that the
  database does not have.
\<close>

type_synonym js_object = "(string \<times> js_value) list"

datatype db_error = SqlError string

section \<open>Order details: getOrderDetails\<close>

subsection \<open>The function\<close>

text \<open>
  The database handle, as \<open>getOrderDetails\<close> uses it: \<open>db.all\<close> of the function's
  query, from the bound parameters to the rows, in the order the engine returns
  them, or to the rejection.
\<close>

type_synonym order_db = "js_value list \<Rightarrow> db_error + js_object list"

text \<open>Reading a property of a row: the column's value, \<open>undefined\<close> if there is none.\<close>

definition row_field :: "js_object \<Rightarrow> string \<Rightarrow> js_value" where
  "row_field row k = (case map_of row k of None \<Rightarrow> JUndefined | Some v \<Rightarrow> v)"

record OrderItem =
  order_item_id :: js_value
  product_id :: js_value
  product_name :: js_value
  quantity :: js_value
  price_at_time :: js_value

record OrderDetails =
  order_id :: js_value
  order_date :: js_value
  status :: js_value
  total_amount :: js_value
  customer_email :: js_value
  shipping_address :: js_value
  shipping_city :: js_value
  shipping_state :: js_value
  shipping_zip :: js_value
  items :: "OrderItem list"

definition item_of_row :: "js_object \<Rightarrow> OrderItem" where
  "item_of_row row =
     \<lparr> order_item_id = row_field row ''order_item_id'',
       product_id = row_field row ''product_id'',
       product_name = row_field row ''product_name'',
       quantity = row_field row ''quantity'',
       price_at_time = row_field row ''price_at_time'' \<rparr>"

text \<open>The loop \<open>for (const row of rows) order.items.push({...})\<close>.\<close>

definition push_items :: "OrderItem list \<Rightarrow> js_object list \<Rightarrow> OrderItem list" where
  "push_items acc rows = foldl (\<lambda>its row. its @ [item_of_row row]) acc rows"

text \<open>
  The function after \<open>await db.all\<close>: \<open>null\<close> (\<open>None\<close>) for no rows, otherwise the
  order's columns from \<open>rows[0]\<close> and one item per row, in the rows' order.
\<close>

definition build_order_details :: "js_object list \<Rightarrow> OrderDetails option" where
  "build_order_details rows =
     (case rows of
        [] \<Rightarrow> None
      | r0 # _ \<Rightarrow>
          Some \<lparr> order_id = row_field r0 ''order_id'',
                 order_date = row_field r0 ''order_date'',
                 status = row_field r0 ''status'',
                 total_amount = row_field r0 ''total_amount'',
                 customer_email = row_field r0 ''customer_email'',
                 shipping_address = row_field r0 ''shipping_address'',
                 shipping_city = row_field r0 ''shipping_city'',
                 shipping_state = row_field r0 ''shipping_state'',
                 shipping_zip = row_field r0 ''shipping_zip'',
                 items = push_items [] rows \<rparr>)"

text \<open>
  What the function is to return for a non-empty array of rows, written out: the
  nine order columns of the first row, and for each row, in order, its five item
  columns.
\<close>

definition order_of_rows :: "js_object list \<Rightarrow> OrderDetails" where
  "order_of_rows rows =
     \<lparr> order_id = row_field (hd rows) ''order_id'',
       order_date = row_field (hd rows) ''order_date'',
       status = row_field (hd rows) ''status'',
       total_amount = row_field (hd rows) ''total_amount'',
       customer_email = row_field (hd rows) ''customer_email'',
       shipping_address = row_field (hd rows) ''shipping_address'',
       shipping_city = row_field (hd rows) ''shipping_city'',
       shipping_state = row_field (hd rows) ''shipping_state'',
       shipping_zip = row_field (hd rows) ''shipping_zip'',
       items = map (\<lambda>row. \<lparr> order_item_id = row_field row ''order_item_id'',
                               product_id = row_field row ''product_id'',
                               product_name = row_field row ''product_name'',
                               quantity = row_field row ''quantity'',
                               price_at_time = row_field row ''price_at_time'' \<rparr>) rows \<rparr>"

text \<open>
  \<open>getOrderDetails(db, orderId)\<close>: the rows are awaited with no handler, so a
  rejection of \<open>db.all\<close> is the rejection of the call (\<open>Inl\<close>).
\<close>

definition getOrderDetails :: "order_db \<Rightarrow> real \<Rightarrow> db_error + OrderDetails option" where
  "getOrderDetails db orderId =
     (case db [JNum orderId] of
        Inl e \<Rightarrow> Inl e
      | Inr rows \<Rightarrow> Inr (build_order_details rows))"

subsection \<open>The query\<close>

text \<open>
  What the database holds: tables by name, each with its columns and its rows; a
  row gives a value to each column. A stored value is NULL, an integer, a real or
  a text.
\<close>

datatype sql_value = SqlNull | SqlInteger int | SqlReal real | SqlText string

type_synonym sql_row = "(string \<times> sql_value) list"

record sql_table =
  tbl_columns :: "string list"
  tbl_rows :: "sql_row list"

type_synonym sql_store = "(string \<times> sql_table) list"

definition table_rows :: "sql_store \<Rightarrow> string \<Rightarrow> sql_row list" where
  "table_rows store t = (case map_of store t of None \<Rightarrow> [] | Some tb \<Rightarrow> tbl_rows tb)"

definition col :: "sql_row \<Rightarrow> string \<Rightarrow> sql_value" where
  "col row c = (case map_of row c of None \<Rightarrow> SqlNull | Some v \<Rightarrow> v)"

text \<open>
  SQL's \<open>=\<close> in a join or filter condition: a comparison with NULL is not true,
  integers and reals compare as numbers, texts as texts, and a number is not a text.
\<close>

fun sql_number :: "sql_value \<Rightarrow> real option" where
  "sql_number (SqlInteger i) = Some (of_int i)"
| "sql_number (SqlReal r) = Some r"
| "sql_number v = None"

fun sql_eq :: "sql_value \<Rightarrow> sql_value \<Rightarrow> bool" where
  "sql_eq (SqlText s) (SqlText t) = (s = t)"
| "sql_eq a b =
     (case sql_number a of
        None \<Rightarrow> False
      | Some x \<Rightarrow> (case sql_number b of None \<Rightarrow> False | Some y \<Rightarrow> x = y))"

text \<open>The value the driver hands to JavaScript for a stored value.\<close>

fun to_js :: "sql_value \<Rightarrow> js_value" where
  "to_js SqlNull = JNull"
| "to_js (SqlInteger i) = JNum (of_int i)"
| "to_js (SqlReal r) = JNum r"
| "to_js (SqlText s) = JStr s"

text \<open>
  The tables and columns the query of \<open>getOrderDetails\<close> names (part\_000, lines 28
  to 49). The statement can be prepared only on a database that has them all;
  otherwise \<open>db.all\<close> rejects ("no such table", "no such column").
\<close>

definition query_columns :: "(string \<times> string list) list" where
  "query_columns =
     [(''orders'', [''order_id'', ''order_date'', ''status'', ''total_amount'', ''customer_id'',
                    ''shipping_address'', ''shipping_city'', ''shipping_state'',
                    ''shipping_zip'']),
      (''customers'', [''customer_id'', ''email'']),
      (''order_items'', [''order_item_id'', ''order_id'', ''product_id'', ''quantity'',
                         ''price_at_time'']),
      (''products'', [''product_id'', ''name''])]"

definition has_columns :: "sql_store \<Rightarrow> string \<Rightarrow> string list \<Rightarrow> bool" where
  "has_columns store t cs =
     (case map_of store t of
        None \<Rightarrow> False
      | Some tb \<Rightarrow> list_all (\<lambda>c. c \<in> set (tbl_columns tb)) cs)"

definition prepares :: "sql_store \<Rightarrow> bool" where
  "prepares store = list_all (\<lambda>(t, cs). has_columns store t cs) query_columns"

text \<open>A row of the result, with the fourteen columns of the SELECT list.\<close>

definition select_row :: "sql_row \<Rightarrow> sql_row \<Rightarrow> sql_row \<Rightarrow> sql_row \<Rightarrow> js_object" where
  "select_row ord c oi p =
     [(''order_id'', to_js (col ord ''order_id'')),
      (''order_date'', to_js (col ord ''order_date'')),
      (''status'', to_js (col ord ''status'')),
      (''total_amount'', to_js (col ord ''total_amount'')),
      (''customer_email'', to_js (col c ''email'')),
      (''shipping_address'', to_js (col ord ''shipping_address'')),
      (''shipping_city'', to_js (col ord ''shipping_city'')),
      (''shipping_state'', to_js (col ord ''shipping_state'')),
      (''shipping_zip'', to_js (col ord ''shipping_zip'')),
      (''order_item_id'', to_js (col oi ''order_item_id'')),
      (''product_id'', to_js (col oi ''product_id'')),
      (''product_name'', to_js (col p ''name'')),
      (''quantity'', to_js (col oi ''quantity'')),
      (''price_at_time'', to_js (col oi ''price_at_time''))]"

text \<open>
  The rows of the query: orders joined (inner joins) with customers, order items
  and products, restricted to the given order id. The query has no ORDER BY, so
  the list is one enumeration of the rows; the engine may return them in any order.
\<close>

definition order_details_join :: "sql_store \<Rightarrow> real \<Rightarrow> js_object list" where
  "order_details_join store orderId =
     [select_row ord c oi p.
        ord \<leftarrow> table_rows store ''orders'',
        c \<leftarrow> table_rows store ''customers'',
        sql_eq (col ord ''customer_id'') (col c ''customer_id''),
        oi \<leftarrow> table_rows store ''order_items'',
        sql_eq (col ord ''order_id'') (col oi ''order_id''),
        p \<leftarrow> table_rows store ''products'',
        sql_eq (col oi ''product_id'') (col p ''product_id''),
        sql_eq (col ord ''order_id'') (SqlReal orderId)]"

text \<open>
  The answers \<open>db.all\<close> may give on a database: it can resolve only if the
  statement can be prepared, and then to the rows of the query in some order; it
  may reject (always, when the statement cannot be prepared).
\<close>

definition db_all_may_answer ::
  "sql_store \<Rightarrow> real \<Rightarrow> db_error + js_object list \<Rightarrow> bool" where
  "db_all_may_answer store orderId ans =
     (case ans of
        Inl e \<Rightarrow> True
      | Inr rows \<Rightarrow> prepares store \<and> mset rows = mset (order_details_join store orderId))"

subsection \<open>Two databases\<close>

text \<open>
  A database with the tables the query names: order 7 of customer 1 has no order
  items; order 8 of customer 1 has two order items, of products 1 and 2; order 9 of
  customer 2 has one, of product 3.
\<close>

definition shop_store :: sql_store where
  "shop_store =
     [(''orders'',
       \<lparr> tbl_columns = [''order_id'', ''order_date'', ''status'', ''total_amount'',
                        ''customer_id'', ''shipping_address'', ''shipping_city'',
                        ''shipping_state'', ''shipping_zip''],
         tbl_rows =
           [[(''order_id'', SqlInteger 7), (''order_date'', SqlText ''2024-01-01''),
             (''status'', SqlText ''pending''), (''total_amount'', SqlReal 0),
             (''customer_id'', SqlInteger 1), (''shipping_address'', SqlText ''1 Elm St''),
             (''shipping_city'', SqlText ''Ames''), (''shipping_state'', SqlText ''IA''),
             (''shipping_zip'', SqlText ''50010'')],
            [(''order_id'', SqlInteger 8), (''order_date'', SqlText ''2024-01-02''),
             (''status'', SqlText ''shipped''), (''total_amount'', SqlReal 30),
             (''customer_id'', SqlInteger 1), (''shipping_address'', SqlText ''1 Elm St''),
             (''shipping_city'', SqlText ''Ames''), (''shipping_state'', SqlText ''IA''),
             (''shipping_zip'', SqlText ''50010'')],
            [(''order_id'', SqlInteger 9), (''order_date'', SqlText ''2024-01-03''),
             (''status'', SqlText ''pending''), (''total_amount'', SqlReal 5),
             (''customer_id'', SqlInteger 2), (''shipping_address'', SqlText ''2 Oak St''),
             (''shipping_city'', SqlText ''Ames''), (''shipping_state'', SqlText ''IA''),
             (''shipping_zip'', SqlText ''50010'')]] \<rparr>),
      (''customers'',
       \<lparr> tbl_columns = [''customer_id'', ''email''],
         tbl_rows = [[(''customer_id'', SqlInteger 1), (''email'', SqlText ''a@example.com'')],
                     [(''customer_id'', SqlInteger 2), (''email'', SqlText ''b@example.com'')]] \<rparr>),
      (''order_items'',
       \<lparr> tbl_columns = [''order_item_id'', ''order_id'', ''product_id'', ''quantity'',
                        ''price_at_time''],
         tbl_rows =
           [[(''order_item_id'', SqlInteger 100), (''order_id'', SqlInteger 8),
             (''product_id'', SqlInteger 1), (''quantity'', SqlInteger 1),
             (''price_at_time'', SqlReal 10)],
            [(''order_item_id'', SqlInteger 101), (''order_id'', SqlInteger 8),
             (''product_id'', SqlInteger 2), (''quantity'', SqlInteger 1),
             (''price_at_time'', SqlReal 20)],
            [(''order_item_id'', SqlInteger 102), (''order_id'', SqlInteger 9),
             (''product_id'', SqlInteger 3), (''quantity'', SqlInteger 1),
             (''price_at_time'', SqlReal 5)]] \<rparr>),
      (''products'',
       \<lparr> tbl_columns = [''product_id'', ''name''],
         tbl_rows = [[(''product_id'', SqlInteger 1), (''name'', SqlText ''pen'')],
                     [(''product_id'', SqlInteger 2), (''name'', SqlText ''ink'')],
                     [(''product_id'', SqlInteger 3), (''name'', SqlText ''cap'')]] \<rparr>)]"

text \<open>The two rows of order 8.\<close>

definition row_100 :: js_object where
  "row_100 =
     [(''order_id'', JNum 8), (''order_date'', JStr ''2024-01-02''), (''status'', JStr ''shipped''),
      (''total_amount'', JNum 30), (''customer_email'', JStr ''a@example.com''),
      (''shipping_address'', JStr ''1 Elm St''), (''shipping_city'', JStr ''Ames''),
      (''shipping_state'', JStr ''IA''), (''shipping_zip'', JStr ''50010''),
      (''order_item_id'', JNum 100), (''product_id'', JNum 1), (''product_name'', JStr ''pen''),
      (''quantity'', JNum 1), (''price_at_time'', JNum 10)]"

definition row_101 :: js_object where
  "row_101 =
     [(''order_id'', JNum 8), (''order_date'', JStr ''2024-01-02''), (''status'', JStr ''shipped''),
      (''total_amount'', JNum 30), (''customer_email'', JStr ''a@example.com''),
      (''shipping_address'', JStr ''1 Elm St''), (''shipping_city'', JStr ''Ames''),
      (''shipping_state'', JStr ''IA''), (''shipping_zip'', JStr ''50010''),
      (''order_item_id'', JNum 101), (''product_id'', JNum 2), (''product_name'', JStr ''ink''),
      (''quantity'', JNum 1), (''price_at_time'', JNum 20)]"

text \<open>
  A handle on that database whose engine returns the rows of order 8 with item 101
  before item 100.
\<close>

definition shop_db :: order_db where
  "shop_db params = (if params = [JNum 8] then Inr [row_101, row_100] else Inr [])"

text \<open>
  The database that \<open>createSchema\<close> of src/schema.ts creates, with the four tables
  the query reads: \<open>orders\<close> has \<open>id\<close> and no \<open>order\_id\<close>, \<open>order\_date\<close> or
  shipping columns, \<open>order\_items\<close> has \<open>unit\_price\<close> and no \<open>price\_at\_time\<close>.
  It holds one order and no order item.
\<close>

definition schema_ts_store :: sql_store where
  "schema_ts_store =
     [(''customers'',
       \<lparr> tbl_columns = [''id'', ''email'', ''username'', ''first_name'', ''last_name'', ''phone'',
                        ''status'', ''created_at'', ''updated_at''],
         tbl_rows = [[(''id'', SqlInteger 1), (''email'', SqlText ''a@example.com''),
                      (''first_name'', SqlText ''A''), (''last_name'', SqlText ''B'')]] \<rparr>),
      (''products'',
       \<lparr> tbl_columns = [''id'', ''sku'', ''name'', ''description'', ''category_id'', ''price'',
                        ''cost'', ''weight'', ''is_active'', ''created_at'', ''updated_at''],
         tbl_rows = [] \<rparr>),
      (''orders'',
       \<lparr> tbl_columns = [''id'', ''order_number'', ''customer_id'', ''status'', ''subtotal'',
                        ''tax_amount'', ''shipping_amount'', ''total_amount'',
                        ''shipping_address_id'', ''billing_address_id'', ''created_at'',
                        ''shipped_at'', ''delivered_at''],
         tbl_rows = [[(''id'', SqlInteger 1), (''order_number'', SqlText ''A-1''),
                      (''customer_id'', SqlInteger 1), (''status'', SqlText ''pending''),
                      (''subtotal'', SqlReal 0), (''total_amount'', SqlReal 0)]] \<rparr>),
      (''order_items'',
       \<lparr> tbl_columns = [''id'', ''order_id'', ''product_id'', ''quantity'', ''unit_price'',
                        ''discount_amount'', ''tax_amount'', ''total_price''],
         tbl_rows = [] \<rparr>)]"

text \<open>A handle on that database: the statement is refused.\<close>

definition schema_ts_db :: order_db where
  "schema_ts_db params = Inl (SqlError ''SQLITE_ERROR: no such column: o.order_id'')"

section \<open>Promotion eligibility: checkPromoEligibility\<close>

text \<open>
  \<open>db.get(query, params)\<close> of the sqlite wrapper resolves to the first row of the
  result, an object of its columns, or to \<open>undefined\<close> when there is none; it rejects
  when the statement fails. The eligibility query is fixed, so the database is the
  function from the bound parameters to that answer.
\<close>

type_synonym promo_db = "js_value list \<Rightarrow> db_error + js_object option"

definition row_value :: "js_object option \<Rightarrow> js_value" where
  "row_value r = (case r of None \<Rightarrow> JUndefined | Some ob \<Rightarrow> JObj ob)"

definition invalid_promo :: "string \<Rightarrow> js_value" where
  "invalid_promo promoCode =
     JObj [(''eligibility_status'', JStr ''Invalid promotion code''),
           (''promo_code'', JStr promoCode)]"

text \<open>The parameters the function binds: the code, then the customer id four times.\<close>

definition promo_params :: "real \<Rightarrow> string \<Rightarrow> js_value list" where
  "promo_params customerId promoCode =
     [JStr promoCode, JNum customerId, JNum customerId, JNum customerId, JNum customerId]"

definition checkPromoEligibility :: "promo_db \<Rightarrow> real \<Rightarrow> string \<Rightarrow> db_error + js_value" where
  "checkPromoEligibility db customerId promoCode =
     (case db (promo_params customerId promoCode) of
        Inl e \<Rightarrow> Inl e
      | Inr r \<Rightarrow>
          (let row = row_value r in
           if truthy row then Inr row else Inr (invalid_promo promoCode)))"

text \<open>Reading a field of a returned object.\<close>

definition get_field :: "js_value \<Rightarrow> string \<Rightarrow> js_value" where
  "get_field v k = (case v of JObj kvs \<Rightarrow> (case map_of kvs k of None \<Rightarrow> JUndefined | Some x \<Rightarrow> x)
                | _ \<Rightarrow> JUndefined)"

text \<open>
  A promotions database for the examples: the code SAVE10 has a row, any other code
  has none.
\<close>

definition promo_db_example :: promo_db where
  "promo_db_example params =
     (if hd params = JStr ''SAVE10''
      then Inr (Some [(''code'', JStr ''SAVE10''), (''eligibility_status'', JStr ''Eligible'')])
      else Inr None)"

section \<open>The virtual file system\<close>

text \<open>
  The file tree, its path normalizer and the preview's entry-point detection are
  described by the specification (sections 3, 4.1, 4.2 and 6); their implementation
  is not among the source files. The definitions of this section follow the
  specification's words.
\<close>

text \<open>Modelled from the spec: the error taxonomy of section 7 (the file-tree errors).\<close>

datatype vfs_error = InvalidPath | PathConflict | NotFound | OutOfRange | CorruptState

text \<open>Modelled from the spec: the type of a node of the tree, \<open>file|directory\<close>.\<close>

datatype node_type = File | Directory

text \<open>
  Modelled from the spec: the FileNode of section 3, \<open>{ path, type: file|directory,
  content: string|null, childPaths: set of immediate children }\<close>.
\<close>

record FileNode =
  path :: string
  ntype :: node_type
  content :: "string option"
  childPaths :: "string fset"

text \<open>
  Modelled from the spec: the VirtualFileSystem of section 3, \<open>{ nodes: mapping
  path to FileNode, version: counter }\<close>.
\<close>

record VirtualFileSystem =
  nodes :: "string \<rightharpoonup> FileNode"
  version :: nat

text \<open>Modelled from the spec: the pieces of a raw path between its separators.\<close>

primrec split_path :: "string \<Rightarrow> string list" where
  "split_path [] = [[]]"
| "split_path (c # cs) =
     (if c = CHR ''/'' then [] # split_path cs
      else (c # hd (split_path cs)) # tl (split_path cs))"

text \<open>
  Modelled from the spec: the segments of a raw path. Dropping the empty pieces
  strips trailing separators and collapses repeated ones (section 4.1); a leading
  separator, present or not, leaves no segment.
\<close>

definition segments :: "string \<Rightarrow> string list" where
  "segments raw = filter (\<lambda>s. s \<noteq> []) (split_path raw)"

text \<open>
  Modelled from the spec: resolving \<open>.\<close> and \<open>..\<close> segments (section 4.1), left to
  right over the segments with the path so far as a stack; \<open>..\<close> at the root would
  escape it and fails with \<open>InvalidPath\<close>.
\<close>

fun resolve :: "string list \<Rightarrow> string list \<Rightarrow> vfs_error + string list" where
  "resolve stack [] = Inr (rev stack)"
| "resolve stack (s # ss) =
     (if s = ''.'' then resolve stack ss
      else if s = ''..'' then
        (case stack of [] \<Rightarrow> Inl InvalidPath | _ # up \<Rightarrow> resolve up ss)
      else resolve (s # stack) ss)"

text \<open>
  Modelled from the spec: the absolute form of a list of segments, with a leading
  separator before each segment; the root is the separator alone.
\<close>

definition render :: "string list \<Rightarrow> string" where
  "render segs = (if segs = [] then ''/'' else concat (map (\<lambda>s. CHR ''/'' # s) segs))"

text \<open>Modelled from the spec: the segments of the normalized path of a raw path.\<close>

definition normalize_segments :: "string \<Rightarrow> vfs_error + string list" where
  "normalize_segments raw = resolve [] (segments raw)"

text \<open>
  Modelled from the spec: \<open>normalize(raw)\<close> of section 4.1: strips trailing
  separators except for root, collapses repeated separators, resolves \<open>.\<close> and
  \<open>..\<close>, forces a leading separator, fails with \<open>InvalidPath\<close> on an escape.
\<close>

definition normalize_path :: "string \<Rightarrow> vfs_error + string" where
  "normalize_path raw =
     (case normalize_segments raw of Inl e \<Rightarrow> Inl e | Inr segs \<Rightarrow> Inr (render segs))"

text \<open>Modelled from the spec: the name of a child, the part of its path after the last separator.\<close>

definition basename :: "string \<Rightarrow> string" where
  "basename p = rev (takeWhile (\<lambda>c. c \<noteq> CHR ''/'') (rev p))"

text \<open>Modelled from the spec: a fresh directory node: no content, no children.\<close>

definition new_directory :: "string \<Rightarrow> FileNode" where
  "new_directory p = \<lparr> path = p, ntype = Directory, content = None, childPaths = {||} \<rparr>"

text \<open>Modelled from the spec: a fresh file node with its content.\<close>

definition new_file :: "string \<Rightarrow> string \<Rightarrow> FileNode" where
  "new_file p c = \<lparr> path = p, ntype = File, content = Some c, childPaths = {||} \<rparr>"

text \<open>
  Modelled from the spec: the tree of a new project. The root path always exists
  (section 3).
\<close>

definition empty_vfs :: VirtualFileSystem where
  "empty_vfs = \<lparr> nodes = [''/'' \<mapsto> new_directory ''/''], version = 0 \<rparr>"

text \<open>
  Modelled from the spec: auto-materialization of one ancestor (section 3: every
  proper prefix of an existing node is an existing directory). A missing directory
  is created; a file in an ancestor's place is a conflict.
\<close>

definition ensure_directory ::
  "(string \<rightharpoonup> FileNode) \<Rightarrow> string \<Rightarrow> vfs_error + (string \<rightharpoonup> FileNode)" where
  "ensure_directory ns p =
     (case ns p of
        None \<Rightarrow> Inr (ns(p \<mapsto> new_directory p))
      | Some n \<Rightarrow> if ntype n = Directory then Inr ns else Inl PathConflict)"

text \<open>Modelled from the spec: recording an immediate child in its directory's childPaths.\<close>

definition add_child ::
  "(string \<rightharpoonup> FileNode) \<Rightarrow> string \<Rightarrow> string \<Rightarrow> (string \<rightharpoonup> FileNode)" where
  "add_child ns dir child =
     (case ns dir of
        None \<Rightarrow> ns
      | Some n \<Rightarrow> ns(dir \<mapsto> n\<lparr>childPaths := finsert child (childPaths n)\<rparr>))"

text \<open>
  Modelled from the spec: auto-creation of the missing ancestor directories of a
  path, from the root down: \<open>cur\<close> is the directory reached, the remaining segments
  lead to the new node.
\<close>

fun materialize ::
  "(string \<rightharpoonup> FileNode) \<Rightarrow> string list \<Rightarrow> string list \<Rightarrow> vfs_error + (string \<rightharpoonup> FileNode)"
where
  "materialize ns cur [] = Inr ns"
| "materialize ns cur (s # rest) =
     (case ensure_directory ns (render cur) of
        Inl e \<Rightarrow> Inl e
      | Inr ns1 \<Rightarrow>
          materialize (add_child ns1 (render cur) (render (cur @ [s]))) (cur @ [s]) rest)"

text \<open>
  Modelled from the spec: \<open>createFile(path, content)\<close> of section 4.2: upsert;
  \<open>PathConflict\<close> if a directory occupies the path (the root is a directory and
  cannot be retyped); auto-creation of missing ancestors; one increment of the
  version. A call that fails leaves the tree as it was.
\<close>

definition createFile ::
  "VirtualFileSystem \<Rightarrow> string \<Rightarrow> string \<Rightarrow> VirtualFileSystem \<times> (vfs_error + unit)" where
  "createFile vfs raw txt =
     (case normalize_segments raw of
        Inl e \<Rightarrow> (vfs, Inl e)
      | Inr segs \<Rightarrow>
          (case nodes vfs (render segs) of
             Some n \<Rightarrow>
               if ntype n = Directory then (vfs, Inl PathConflict)
               else (vfs\<lparr> nodes := (nodes vfs)(render segs \<mapsto> n\<lparr>content := Some txt\<rparr>),
                          version := version vfs + 1 \<rparr>, Inr ())
           | None \<Rightarrow>
               if segs = [] then (vfs, Inl PathConflict)
               else
                 (case materialize (nodes vfs) [] segs of
                    Inl e \<Rightarrow> (vfs, Inl e)
                  | Inr ns \<Rightarrow>
                      (vfs\<lparr> nodes := ns(render segs \<mapsto> new_file (render segs) txt),
                            version := version vfs + 1 \<rparr>, Inr ()))))"

text \<open>
  Modelled from the spec: \<open>readFile(path)\<close>: \<open>NotFound\<close> if the path is absent or
  denotes a directory.
\<close>

definition readFile :: "VirtualFileSystem \<Rightarrow> string \<Rightarrow> vfs_error + string" where
  "readFile vfs raw =
     (case normalize_path raw of
        Inl e \<Rightarrow> Inl e
      | Inr p \<Rightarrow>
          (case nodes vfs p of
             None \<Rightarrow> Inl NotFound
           | Some n \<Rightarrow>
               if ntype n = Directory then Inl NotFound
               else (case content n of None \<Rightarrow> Inl NotFound | Some c \<Rightarrow> Inr c)))"

text \<open>
  Modelled from the spec: \<open>list(path)\<close>: the immediate children by name, sorted;
  \<open>NotFound\<close> if the path is not a directory.
\<close>

definition list_vfs :: "VirtualFileSystem \<Rightarrow> string \<Rightarrow> vfs_error + string list" where
  "list_vfs vfs raw =
     (case normalize_path raw of
        Inl e \<Rightarrow> Inl e
      | Inr p \<Rightarrow>
          (case nodes vfs p of
             None \<Rightarrow> Inl NotFound
           | Some n \<Rightarrow>
               if ntype n = Directory
               then Inr (sorted_list_of_fset (basename |`| childPaths n))
               else Inl NotFound))"

text \<open>
  Modelled from the spec: the occurrences of \<open>oldText\<close> in a content, counted by
  the positions at which it occurs.
\<close>

fun count_occurrences :: "string \<Rightarrow> string \<Rightarrow> nat" where
  "count_occurrences old [] = (if old = [] then 1 else 0)"
| "count_occurrences old (c # cs) =
     (if starts_with (c # cs) old then 1 else 0) + count_occurrences old cs"

text \<open>Modelled from the spec: the content with the first occurrence of \<open>oldText\<close> replaced.\<close>

fun replace_first :: "string \<Rightarrow> string \<Rightarrow> string \<Rightarrow> string" where
  "replace_first old new [] = (if old = [] then new else [])"
| "replace_first old new (c # cs) =
     (if starts_with (c # cs) old then new @ drop (length old) (c # cs)
      else c # replace_first old new cs)"

text \<open>
  Modelled from the spec: \<open>replaceInFile(path, oldText, newText)\<close> of section 4.2:
  \<open>NotFound\<close> if the file does not exist, or if \<open>oldText\<close> occurs zero or more than
  one time; otherwise the one occurrence is replaced and the version incremented.
  A call that fails leaves the tree as it was.
\<close>

definition replaceInFile ::
  "VirtualFileSystem \<Rightarrow> string \<Rightarrow> string \<Rightarrow> string \<Rightarrow> VirtualFileSystem \<times> (vfs_error + unit)"
where
  "replaceInFile vfs raw old new =
     (case normalize_path raw of
        Inl e \<Rightarrow> (vfs, Inl e)
      | Inr p \<Rightarrow>
          (case nodes vfs p of
             None \<Rightarrow> (vfs, Inl NotFound)
           | Some n \<Rightarrow>
               if ntype n = Directory then (vfs, Inl NotFound)
               else
                 (case content n of
                    None \<Rightarrow> (vfs, Inl NotFound)
                  | Some c \<Rightarrow>
                      if count_occurrences old c = 1
                      then (vfs\<lparr> nodes := (nodes vfs)(p \<mapsto> n\<lparr>content := Some (replace_first old new c)\<rparr>),
                                 version := version vfs + 1 \<rparr>, Inr ())
                      else (vfs, Inl NotFound))))"

text \<open>
  Two predicates on the node map, for stating what a tree holds: a directory node
  at a path, and a directory node at a path whose childPaths list a given child.
  They state section 3's invariant that a proper prefix of an existing node is an
  existing directory.
\<close>

definition is_directory :: "(string \<rightharpoonup> FileNode) \<Rightarrow> string \<Rightarrow> bool" where
  "is_directory ns p = (case ns p of None \<Rightarrow> False | Some n \<Rightarrow> ntype n = Directory)"

definition lists_child :: "(string \<rightharpoonup> FileNode) \<Rightarrow> string \<Rightarrow> string \<Rightarrow> bool" where
  "lists_child ns p c =
     (case ns p of None \<Rightarrow> False | Some n \<Rightarrow> ntype n = Directory \<and> c |\<in>| childPaths n)"

text \<open>
  A path that no file occupies: it is absent or a directory. \<open>createFile\<close> can
  create a new path exactly when this holds of every proper ancestor.
\<close>

definition not_file :: "(string \<rightharpoonup> FileNode) \<Rightarrow> string \<Rightarrow> bool" where
  "not_file ns p = (case ns p of None \<Rightarrow> True | Some n \<Rightarrow> ntype n = Directory)"

text \<open>
  The node of an ancestor directory after a new path below it has been created: a
  directory that existed keeps its fields and gains the child on the way to the new
  path; a missing one is a fresh directory with that child.
\<close>

definition ancestor_node :: "(string \<rightharpoonup> FileNode) \<Rightarrow> string \<Rightarrow> string \<Rightarrow> FileNode" where
  "ancestor_node ns dir child =
     (case ns dir of
        None \<Rightarrow> (new_directory dir)\<lparr>childPaths := {|child|}\<rparr>
      | Some n \<Rightarrow> n\<lparr>childPaths := finsert child (childPaths n)\<rparr>)"

text \<open>A tree for the examples: the empty tree after \<open>createFile("/a/x.txt", "1")\<close>.\<close>

definition one_file_tree :: VirtualFileSystem where
  "one_file_tree = fst (createFile empty_vfs ''/a/x.txt'' ''1'')"

section \<open>The preview contract: entry-point detection\<close>

text \<open>
  Modelled from the spec: the snapshot handed to the preview (section 6): the full
  path to content map, restricted to files.
\<close>

definition preview_files :: "VirtualFileSystem \<Rightarrow> (string \<rightharpoonup> string)" where
  "preview_files vfs p =
     (case nodes vfs p of
        None \<Rightarrow> None
      | Some n \<Rightarrow> if ntype n = File then content n else None)"

text \<open>Modelled from the spec: the fixed ordered candidate list, as section 6 gives it.\<close>

definition entry_candidates :: "string list" where
  "entry_candidates = [''/App.jsx'', ''/App.tsx'', ''/index.jsx'', ''/index.tsx'']"

text \<open>
  Modelled from the spec: entry-point detection: the candidates are probed in order
  and the first that exists is returned; \<open>None\<close> reports "no entry point".
\<close>

definition detect_entry_point :: "(string \<rightharpoonup> string) \<Rightarrow> string option" where
  "detect_entry_point files = find (\<lambda>p. files p \<noteq> None) entry_candidates"

section \<open>Theorems\<close>

subsection \<open>The review hook\<close>

lemma main_rest_can_block:
  "snd (main_rest blocking_env) = Exited 2"
  by (simp add: main_rest_def blocking_env_def bind_proc_def read_stdin_def parse_input_def
      yield_def process_exit_def resolve_file_def REVIEW_DIR_def call_query_def judge_def
      emit_def)

text \<open>
  C8. For every input, \<open>main\<close> of the query hook exits with status 0 at its first
  statement: nothing is read from standard input, nothing is parsed, no query is made
  and nothing is written; so the hook always allows the change, and the branch that
  exits with status 2 is never reached, although the statements after the first
  would reach it.
\<close>

theorem query_hook_always_allows:
  "main env = ([], Exited 0)
   \<and> run_hook env = ([], 0)
   \<and> snd (main env) \<noteq> Exited 2
   \<and> snd (main_rest blocking_env) = Exited 2"
  by (simp add: main_def run_hook_def process_exit_def bind_proc_def main_rest_can_block)

subsection \<open>Order details\<close>

lemma push_items_map: "push_items acc rows = acc @ map item_of_row rows"
  unfolding push_items_def by (induction rows arbitrary: acc) auto

lemma build_order_details_None: "(build_order_details rows = None) = (rows = [])"
  by (cases rows) (simp_all add: build_order_details_def)

lemma build_order_details_items:
  "build_order_details rows = Some d \<Longrightarrow> items d = map item_of_row rows"
  by (cases rows) (auto simp: build_order_details_def push_items_map)

lemma build_order_details_header:
  "build_order_details (r0 # rows) = Some d \<Longrightarrow>
   order_id d = row_field r0 ''order_id'' \<and> customer_email d = row_field r0 ''customer_email''"
  by (auto simp: build_order_details_def)

lemma getOrderDetails_rejects:
  "db [JNum orderId] = Inl e \<Longrightarrow> getOrderDetails db orderId = Inl e"
  by (simp add: getOrderDetails_def)

lemma getOrderDetails_resolves:
  "db [JNum orderId] = Inr rows \<Longrightarrow> getOrderDetails db orderId = Inr (build_order_details rows)"
  by (simp add: getOrderDetails_def)

lemma getOrderDetails_null:
  "(getOrderDetails db orderId = Inr None) = (db [JNum orderId] = Inr [])"
  by (cases "db [JNum orderId]")
    (simp_all add: getOrderDetails_def build_order_details_None)

lemma sql_eq_shared:
  "sql_eq a b \<Longrightarrow> sql_eq a c \<Longrightarrow> sql_eq b c"
  by (cases a; cases b; cases c) simp_all

lemma order_details_join_member:
  assumes "row \<in> set (order_details_join store orderId)"
  shows "\<exists>ord oi. ord \<in> set (table_rows store ''orders'')
           \<and> oi \<in> set (table_rows store ''order_items'')
           \<and> sql_eq (col ord ''order_id'') (col oi ''order_id'')
           \<and> sql_eq (col ord ''order_id'') (SqlReal orderId)"
  using assms unfolding order_details_join_def
  by (auto split: if_splits)

lemma order_details_join_no_items:
  assumes none: "\<forall>oi\<in>set (table_rows store ''order_items'').
             \<not> sql_eq (col oi ''order_id'') (SqlReal orderId)"
  shows "order_details_join store orderId = []"
proof (rule ccontr)
  assume "order_details_join store orderId \<noteq> []"
  then obtain row where "row \<in> set (order_details_join store orderId)"
    by (cases "order_details_join store orderId") auto
  then obtain ord oi where oi: "oi \<in> set (table_rows store ''order_items'')"
    and j: "sql_eq (col ord ''order_id'') (col oi ''order_id'')"
    and w: "sql_eq (col ord ''order_id'') (SqlReal orderId)"
    using order_details_join_member by blast
  from j w have "sql_eq (col oi ''order_id'') (SqlReal orderId)"
    by (rule sql_eq_shared)
  with none oi show False by blast
qed

lemma mset_eq_Nil: "mset rows = mset other \<Longrightarrow> (rows = []) = (other = [])"
  by (metis mset_zero_iff)

text \<open>
  C9. \<open>getOrderDetails\<close> returns \<open>null\<close> exactly when \<open>db.all\<close> resolves to no
  row; when \<open>db.all\<close> rejects, so does the call. When there are rows, the items of
  the result are the rows' items, one per row, in the order the rows were returned.
  On a database: the call can resolve only if the database has the columns the query
  names, and then \<open>null\<close> is returned exactly when the join has no row. The query
  joins \<open>order_items\<close> with an inner join, so an order that exists and has no order
  items yields \<open>null\<close> too, not details with an empty item list; and the number of
  items is the number of rows of the join, whatever order the engine returns them in.
\<close>

theorem getOrderDetails_null_iff_no_rows:
  "(getOrderDetails db orderId = Inr None) = (db [JNum orderId] = Inr [])
   \<and> (\<forall>e. db [JNum orderId] = Inl e \<longrightarrow> getOrderDetails db orderId = Inl e)
   \<and> (\<forall>rows. db [JNum orderId] = Inr rows \<and> rows \<noteq> [] \<longrightarrow>
         (\<exists>d. getOrderDetails db orderId = Inr (Some d)
            \<and> d = order_of_rows rows
            \<and> items d = map item_of_row rows \<and> length (items d) = length rows))
   \<and> (\<forall>store. db_all_may_answer store orderId (db [JNum orderId]) \<longrightarrow>
         (\<not> prepares store \<longrightarrow> (\<exists>e. getOrderDetails db orderId = Inl e))
         \<and> (\<forall>rows. db [JNum orderId] = Inr rows \<longrightarrow>
               (getOrderDetails db orderId = Inr None) = (order_details_join store orderId = [])
               \<and> ((\<exists>ord\<in>set (table_rows store ''orders'').
                      sql_eq (col ord ''order_id'') (SqlReal orderId))
                    \<and> (\<forall>oi\<in>set (table_rows store ''order_items'').
                      \<not> sql_eq (col oi ''order_id'') (SqlReal orderId))
                    \<longrightarrow> getOrderDetails db orderId = Inr None)
               \<and> (\<forall>d. getOrderDetails db orderId = Inr (Some d) \<longrightarrow>
                     length (items d) = length (order_details_join store orderId)
                     \<and> mset (items d) = mset (map item_of_row (order_details_join store orderId)))))"
proof -
  have null: "(getOrderDetails db orderId = Inr None) = (db [JNum orderId] = Inr [])"
    by (rule getOrderDetails_null)
  have rejects: "\<forall>e. db [JNum orderId] = Inl e \<longrightarrow> getOrderDetails db orderId = Inl e"
    by (simp add: getOrderDetails_rejects)
  have per_row: "\<forall>rows. db [JNum orderId] = Inr rows \<and> rows \<noteq> [] \<longrightarrow>
         (\<exists>d. getOrderDetails db orderId = Inr (Some d)
            \<and> d = order_of_rows rows
            \<and> items d = map item_of_row rows \<and> length (items d) = length rows)"
  proof (intro allI impI)
    fix rows assume h: "db [JNum orderId] = Inr rows \<and> rows \<noteq> []"
    then obtain d where d: "build_order_details rows = Some d"
      using build_order_details_None [of rows] by auto
    then have "items d = map item_of_row rows"
      by (rule build_order_details_items)
    moreover have "d = order_of_rows rows"
      using h d by (cases rows) (auto simp: build_order_details_def order_of_rows_def
          push_items_map item_of_row_def)
    ultimately show "\<exists>d. getOrderDetails db orderId = Inr (Some d)
            \<and> d = order_of_rows rows
            \<and> items d = map item_of_row rows \<and> length (items d) = length rows"
      using h d by (simp add: getOrderDetails_resolves)
  qed
  have on_store: "\<forall>store. db_all_may_answer store orderId (db [JNum orderId]) \<longrightarrow>
         (\<not> prepares store \<longrightarrow> (\<exists>e. getOrderDetails db orderId = Inl e))
         \<and> (\<forall>rows. db [JNum orderId] = Inr rows \<longrightarrow>
               (getOrderDetails db orderId = Inr None) = (order_details_join store orderId = [])
               \<and> ((\<exists>ord\<in>set (table_rows store ''orders'').
                      sql_eq (col ord ''order_id'') (SqlReal orderId))
                    \<and> (\<forall>oi\<in>set (table_rows store ''order_items'').
                      \<not> sql_eq (col oi ''order_id'') (SqlReal orderId))
                    \<longrightarrow> getOrderDetails db orderId = Inr None)
               \<and> (\<forall>d. getOrderDetails db orderId = Inr (Some d) \<longrightarrow>
                     length (items d) = length (order_details_join store orderId)
                     \<and> mset (items d) = mset (map item_of_row (order_details_join store orderId))))"
  proof (intro allI impI)
    fix store assume a: "db_all_may_answer store orderId (db [JNum orderId])"
    have refused: "\<not> prepares store \<longrightarrow> (\<exists>e. getOrderDetails db orderId = Inl e)"
    proof
      assume "\<not> prepares store"
      with a obtain e where "db [JNum orderId] = Inl e"
        by (cases "db [JNum orderId]") (auto simp: db_all_may_answer_def)
      then show "\<exists>e. getOrderDetails db orderId = Inl e"
        by (auto simp: getOrderDetails_rejects)
    qed
    have resolved: "\<forall>rows. db [JNum orderId] = Inr rows \<longrightarrow>
               (getOrderDetails db orderId = Inr None) = (order_details_join store orderId = [])
               \<and> ((\<exists>ord\<in>set (table_rows store ''orders'').
                      sql_eq (col ord ''order_id'') (SqlReal orderId))
                    \<and> (\<forall>oi\<in>set (table_rows store ''order_items'').
                      \<not> sql_eq (col oi ''order_id'') (SqlReal orderId))
                    \<longrightarrow> getOrderDetails db orderId = Inr None)
               \<and> (\<forall>d. getOrderDetails db orderId = Inr (Some d) \<longrightarrow>
                     length (items d) = length (order_details_join store orderId)
                     \<and> mset (items d) = mset (map item_of_row (order_details_join store orderId)))"
    proof (intro allI impI)
      fix rows assume r: "db [JNum orderId] = Inr rows"
      with a have perm: "mset rows = mset (order_details_join store orderId)"
        by (simp add: db_all_may_answer_def)
      have iff: "(getOrderDetails db orderId = Inr None) = (order_details_join store orderId = [])"
        using r mset_eq_Nil [OF perm] by (simp add: getOrderDetails_null)
      have no_items: "(\<exists>ord\<in>set (table_rows store ''orders'').
                      sql_eq (col ord ''order_id'') (SqlReal orderId))
                    \<and> (\<forall>oi\<in>set (table_rows store ''order_items'').
                      \<not> sql_eq (col oi ''order_id'') (SqlReal orderId))
                    \<longrightarrow> getOrderDetails db orderId = Inr None"
        using iff order_details_join_no_items [of store orderId] by blast
      have count: "\<forall>d. getOrderDetails db orderId = Inr (Some d) \<longrightarrow>
                     length (items d) = length (order_details_join store orderId)
                     \<and> mset (items d) = mset (map item_of_row (order_details_join store orderId))"
      proof (intro allI impI)
        fix d assume "getOrderDetails db orderId = Inr (Some d)"
        with r have "build_order_details rows = Some d"
          by (simp add: getOrderDetails_resolves)
        then have i: "items d = map item_of_row rows"
          by (rule build_order_details_items)
        have "length rows = length (order_details_join store orderId)"
          using perm by (rule mset_eq_length)
        moreover have "mset (map item_of_row rows)
            = mset (map item_of_row (order_details_join store orderId))"
          using arg_cong [OF perm, of "image_mset item_of_row"] by simp
        ultimately show "length (items d) = length (order_details_join store orderId)
            \<and> mset (items d) = mset (map item_of_row (order_details_join store orderId))"
          using i by simp
      qed
      show "(getOrderDetails db orderId = Inr None) = (order_details_join store orderId = [])
               \<and> ((\<exists>ord\<in>set (table_rows store ''orders'').
                      sql_eq (col ord ''order_id'') (SqlReal orderId))
                    \<and> (\<forall>oi\<in>set (table_rows store ''order_items'').
                      \<not> sql_eq (col oi ''order_id'') (SqlReal orderId))
                    \<longrightarrow> getOrderDetails db orderId = Inr None)
               \<and> (\<forall>d. getOrderDetails db orderId = Inr (Some d) \<longrightarrow>
                     length (items d) = length (order_details_join store orderId)
                     \<and> mset (items d) = mset (map item_of_row (order_details_join store orderId)))"
        by (intro conjI; fact)
    qed
    from refused resolved
    show "(\<not> prepares store \<longrightarrow> (\<exists>e. getOrderDetails db orderId = Inl e))
         \<and> (\<forall>rows. db [JNum orderId] = Inr rows \<longrightarrow>
               (getOrderDetails db orderId = Inr None) = (order_details_join store orderId = [])
               \<and> ((\<exists>ord\<in>set (table_rows store ''orders'').
                      sql_eq (col ord ''order_id'') (SqlReal orderId))
                    \<and> (\<forall>oi\<in>set (table_rows store ''order_items'').
                      \<not> sql_eq (col oi ''order_id'') (SqlReal orderId))
                    \<longrightarrow> getOrderDetails db orderId = Inr None)
               \<and> (\<forall>d. getOrderDetails db orderId = Inr (Some d) \<longrightarrow>
                     length (items d) = length (order_details_join store orderId)
                     \<and> mset (items d) = mset (map item_of_row (order_details_join store orderId))))"
      by (rule conjI)
  qed
  show ?thesis
    by (intro conjI; fact)
qed

lemma shop_prepares: "prepares shop_store"
  by (simp add: prepares_def query_columns_def has_columns_def shop_store_def)

lemma schema_ts_refuses: "\<not> prepares schema_ts_store"
  by (simp add: prepares_def query_columns_def has_columns_def schema_ts_store_def)

lemma shop_join_7: "order_details_join shop_store 7 = []"
  by (simp add: order_details_join_def shop_store_def table_rows_def col_def)

lemma shop_join_8: "order_details_join shop_store 8 = [row_100, row_101]"
  by (simp add: order_details_join_def shop_store_def table_rows_def col_def select_row_def
      row_100_def row_101_def)

lemma schema_ts_never_resolves:
  "\<not> db_all_may_answer schema_ts_store orderId (Inr rows)"
  by (simp add: db_all_may_answer_def schema_ts_refuses)

lemma shop_order_7:
  "\<exists>ord\<in>set (table_rows shop_store ''orders''). sql_eq (col ord ''order_id'') (SqlReal 7)"
  "\<forall>oi\<in>set (table_rows shop_store ''order_items''). \<not> sql_eq (col oi ''order_id'') (SqlReal 7)"
  by (simp_all add: shop_store_def table_rows_def col_def)

theorem getOrderDetails_null_iff_no_rows_witness:
  "prepares shop_store
   \<and> db_all_may_answer shop_store 7 (shop_db [JNum 7])
   \<and> getOrderDetails shop_db 7 = Inr None
   \<and> order_details_join shop_store 8 = [row_100, row_101]
   \<and> shop_db [JNum 8] = Inr [row_101, row_100]
   \<and> db_all_may_answer shop_store 8 (shop_db [JNum 8])
   \<and> (\<exists>d. getOrderDetails shop_db 8 = Inr (Some d)
         \<and> map order_item_id (items d) = [JNum 101, JNum 100]
         \<and> map product_name (items d) = [JStr ''ink'', JStr ''pen'']
         \<and> customer_email d = JStr ''a@example.com''
         \<and> length (items d) = length (order_details_join shop_store 8))
   \<and> \<not> prepares schema_ts_store
   \<and> \<not> db_all_may_answer schema_ts_store 1 (Inr [])
   \<and> db_all_may_answer schema_ts_store 1 (schema_ts_db [JNum 1])
   \<and> getOrderDetails schema_ts_db 1 = Inl (SqlError ''SQLITE_ERROR: no such column: o.order_id'')"
proof -
  have a7: "db_all_may_answer shop_store 7 (shop_db [JNum 7])"
    by (simp add: db_all_may_answer_def shop_db_def shop_prepares shop_join_7)
  have r7: "shop_db [JNum 7] = Inr []"
    by (simp add: shop_db_def)
  have n7: "getOrderDetails shop_db 7 = Inr None"
    using getOrderDetails_null_iff_no_rows [of shop_db 7] a7 r7 shop_order_7 by blast
  have r8: "shop_db [JNum 8] = Inr [row_101, row_100]"
    by (simp add: shop_db_def)
  have a8: "db_all_may_answer shop_store 8 (shop_db [JNum 8])"
    by (simp add: db_all_may_answer_def r8 shop_prepares shop_join_8)
  from r8 obtain d where d: "getOrderDetails shop_db 8 = Inr (Some d)"
    and i: "d = order_of_rows [row_101, row_100]"
    using getOrderDetails_null_iff_no_rows [of shop_db 8] by blast
  have "length (items d) = length (order_details_join shop_store 8)"
    using getOrderDetails_null_iff_no_rows [of shop_db 8] a8 r8 d by blast
  with d i have e8: "\<exists>d. getOrderDetails shop_db 8 = Inr (Some d)
         \<and> map order_item_id (items d) = [JNum 101, JNum 100]
         \<and> map product_name (items d) = [JStr ''ink'', JStr ''pen'']
         \<and> customer_email d = JStr ''a@example.com''
         \<and> length (items d) = length (order_details_join shop_store 8)"
    by (simp add: order_of_rows_def row_field_def row_100_def row_101_def)
  have as: "db_all_may_answer schema_ts_store 1 (schema_ts_db [JNum 1])"
    by (simp add: db_all_may_answer_def schema_ts_db_def)
  have "schema_ts_db [JNum 1] = Inl (SqlError ''SQLITE_ERROR: no such column: o.order_id'')"
    by (simp add: schema_ts_db_def)
  then have es: "getOrderDetails schema_ts_db 1
      = Inl (SqlError ''SQLITE_ERROR: no such column: o.order_id'')"
    using getOrderDetails_null_iff_no_rows [of schema_ts_db 1] by blast
  show ?thesis
    using shop_prepares a7 n7 shop_join_8 r8 a8 e8 schema_ts_refuses
      schema_ts_never_resolves [of 1 "[]"] as es
    by (intro conjI)
qed

subsection \<open>Promotion eligibility\<close>

text \<open>
  C10. \<open>checkPromoEligibility\<close> never returns \<open>null\<close> or \<open>undefined\<close>. When
  the lookup yields no row, it returns an object whose \<open>eligibility_status\<close> is
  "Invalid promotion code" and whose \<open>promo_code\<close> is the given code; when it yields
  a row, it returns that row unchanged. (When the lookup fails, so does the call.)
\<close>

theorem checkPromoEligibility_never_null:
  "checkPromoEligibility db customerId promoCode \<noteq> Inr JNull
   \<and> checkPromoEligibility db customerId promoCode \<noteq> Inr JUndefined
   \<and> (db (promo_params customerId promoCode) = Inr None
        \<longrightarrow> checkPromoEligibility db customerId promoCode = Inr (invalid_promo promoCode)
          \<and> get_field (invalid_promo promoCode) ''eligibility_status'' = JStr ''Invalid promotion code''
          \<and> get_field (invalid_promo promoCode) ''promo_code'' = JStr promoCode)
   \<and> (\<forall>row. db (promo_params customerId promoCode) = Inr (Some row)
        \<longrightarrow> checkPromoEligibility db customerId promoCode = Inr (JObj row))
   \<and> (\<forall>e. db (promo_params customerId promoCode) = Inl e
        \<longrightarrow> checkPromoEligibility db customerId promoCode = Inl e)"
  by (auto simp: checkPromoEligibility_def row_value_def invalid_promo_def get_field_def
      split: sum.splits option.splits)

theorem checkPromoEligibility_never_null_witness:
  "promo_db_example (promo_params 3 ''FREE'') = Inr None
   \<and> checkPromoEligibility promo_db_example 3 ''FREE'' =
       Inr (JObj [(''eligibility_status'', JStr ''Invalid promotion code''),
                  (''promo_code'', JStr ''FREE'')])
   \<and> checkPromoEligibility promo_db_example 3 ''SAVE10'' =
       Inr (JObj [(''code'', JStr ''SAVE10''), (''eligibility_status'', JStr ''Eligible'')])"
proof -
  have none: "promo_db_example (promo_params 3 ''FREE'') = Inr None"
    by (simp add: promo_db_example_def promo_params_def)
  have some: "promo_db_example (promo_params 3 ''SAVE10'') =
      Inr (Some [(''code'', JStr ''SAVE10''), (''eligibility_status'', JStr ''Eligible'')])"
    by (simp add: promo_db_example_def promo_params_def)
  show ?thesis
    using checkPromoEligibility_never_null [of promo_db_example 3 "''FREE''"]
      checkPromoEligibility_never_null [of promo_db_example 3 "''SAVE10''"] none some
    by (simp add: invalid_promo_def)
qed

subsection \<open>Path normalization\<close>

lemma split_path_nonempty: "split_path raw \<noteq> []"
  by (induction raw) auto

lemma split_path_no_separator: "s \<in> set (split_path raw) \<Longrightarrow> CHR ''/'' \<notin> set s"
proof (induction raw arbitrary: s)
  case Nil
  then show ?case by simp
next
  case (Cons c cs)
  show ?case
  proof (cases "c = CHR ''/''")
    case True
    with Cons show ?thesis by auto
  next
    case False
    obtain h t where ht: "split_path cs = h # t"
      using split_path_nonempty [of cs] by (cases "split_path cs") auto
    with Cons False show ?thesis by auto
  qed
qed

lemma segments_clean: "s \<in> set (segments raw) \<Longrightarrow> s \<noteq> [] \<and> CHR ''/'' \<notin> set s"
  by (auto simp: segments_def dest: split_path_no_separator)

lemma resolve_subset: "resolve stack ss = Inr r \<Longrightarrow> set r \<subseteq> set stack \<union> set ss"
proof (induction stack ss arbitrary: r rule: resolve.induct)
  case (1 stack)
  then show ?case by auto
next
  case (2 stack s ss)
  then show ?case
    by (auto split: if_splits list.splits)
qed

lemma normalize_segments_clean:
  "normalize_segments raw = Inr segs \<Longrightarrow> s \<in> set segs \<Longrightarrow> s \<noteq> [] \<and> CHR ''/'' \<notin> set s"
  using resolve_subset [of "[]" "segments raw" segs] segments_clean [of s raw]
  by (auto simp: normalize_segments_def)

lemma length_render_step:
  "s \<noteq> [] \<Longrightarrow> length (render cur) < length (render (cur @ [s]))"
  by (cases s) (auto simp: render_def)

lemma length_render_prefix:
  "\<forall>s\<in>set rest. s \<noteq> [] \<Longrightarrow> rest \<noteq> [] \<Longrightarrow> length (render cur) < length (render (cur @ rest))"
proof (induction rest arbitrary: cur)
  case Nil
  then show ?case by simp
next
  case (Cons s rest)
  have step: "length (render cur) < length (render (cur @ [s]))"
    using Cons.prems by (simp add: length_render_step)
  show ?case
  proof (cases "rest = []")
    case True
    with step show ?thesis by simp
  next
    case False
    have "length (render (cur @ [s])) < length (render ((cur @ [s]) @ rest))"
      using Cons.IH [of "cur @ [s]"] Cons.prems False by simp
    with step show ?thesis by simp
  qed
qed

lemma render_take_neq:
  assumes "\<forall>s\<in>set segs. s \<noteq> []" and "k < length segs"
  shows "render (take k segs) \<noteq> render segs"
proof -
  have "\<forall>s\<in>set (drop k segs). s \<noteq> []"
    using assms(1) by (auto dest: in_set_dropD)
  moreover have "drop k segs \<noteq> []"
    using assms(2) by simp
  ultimately have "length (render (take k segs)) < length (render (take k segs @ drop k segs))"
    by (rule length_render_prefix)
  then show ?thesis by auto
qed

lemma basename_render:
  "CHR ''/'' \<notin> set s \<Longrightarrow> basename (render (cur @ [s])) = s"
proof -
  have "takeWhile (\<lambda>c. c \<noteq> CHR ''/'') (rev s @ CHR ''/'' # rev (concat (map ((#) CHR ''/'') cur)))
      = takeWhile (\<lambda>c. c \<noteq> CHR ''/'') (rev s)"
    by (rule takeWhile_tail) simp
  moreover assume "CHR ''/'' \<notin> set s"
  then have "takeWhile (\<lambda>c. c \<noteq> CHR ''/'') (rev s) = rev s"
    by (auto simp: takeWhile_eq_all_conv)
  ultimately show ?thesis
    by (simp add: basename_def render_def)
qed

lemma split_path_append:
  "CHR ''/'' \<notin> set s \<Longrightarrow> split_path (s @ r) = (s @ hd (split_path r)) # tl (split_path r)"
  using split_path_nonempty [of r] by (induction s) auto

lemma split_path_joined:
  "\<forall>s\<in>set segs. CHR ''/'' \<notin> set s \<Longrightarrow>
   split_path (concat (map (\<lambda>s. CHR ''/'' # s) segs)) = [] # segs"
proof (induction segs)
  case Nil
  then show ?case by simp
next
  case (Cons s segs)
  then have "split_path (concat (map (\<lambda>s. CHR ''/'' # s) (s # segs)))
      = [] # split_path (s @ concat (map (\<lambda>s. CHR ''/'' # s) segs))"
    by simp
  also have "\<dots> = [] # (s @ []) # segs"
    using Cons by (simp add: split_path_append)
  finally show ?case by simp
qed

lemma segments_render:
  assumes "\<forall>s\<in>set segs. s \<noteq> [] \<and> CHR ''/'' \<notin> set s"
  shows "segments (render segs) = segs"
proof (cases "segs = []")
  case True
  then show ?thesis by (simp add: segments_def render_def)
next
  case False
  have "filter (\<lambda>s. s \<noteq> []) segs = segs"
    using assms by (simp add: filter_id_conv)
  with False assms show ?thesis
    by (simp add: segments_def render_def split_path_joined)
qed

lemma resolve_push:
  "s \<noteq> ''.'' \<Longrightarrow> s \<noteq> ''..'' \<Longrightarrow> resolve stack (s # ss) = resolve (s # stack) ss"
  by simp

lemma resolve_no_dots:
  "resolve stack ss = Inr r \<Longrightarrow> ''.'' \<notin> set stack \<Longrightarrow> ''..'' \<notin> set stack \<Longrightarrow>
   ''.'' \<notin> set r \<and> ''..'' \<notin> set r"
proof (induction ss arbitrary: stack)
  case Nil
  then show ?case by auto
next
  case (Cons x ss)
  show ?case
  proof (cases "x = ''.''")
    case True
    with Cons.prems(1) have "resolve stack ss = Inr r"
      by simp
    then show ?thesis using Cons.prems(2,3) by (rule Cons.IH)
  next
    case notdot: False
    show ?thesis
    proof (cases "x = ''..''")
      case True
      show ?thesis
      proof (cases stack)
        case Nil
        with True Cons.prems(1) show ?thesis by simp
      next
        case (Cons t rest)
        with True Cons.prems(1) have "resolve rest ss = Inr r"
          by simp
        moreover have "''.'' \<notin> set rest" "''..'' \<notin> set rest"
          using Cons.prems(2,3) Cons by simp_all
        ultimately show ?thesis by (rule Cons.IH)
      qed
    next
      case False
      with notdot Cons.prems(1) have "resolve (x # stack) ss = Inr r"
        by (simp add: resolve_push)
      moreover have "''.'' \<notin> set (x # stack)" "''..'' \<notin> set (x # stack)"
        using Cons.prems(2,3) notdot False by auto
      ultimately show ?thesis by (rule Cons.IH)
    qed
  qed
qed

lemma resolve_plain:
  "''.'' \<notin> set ss \<Longrightarrow> ''..'' \<notin> set ss \<Longrightarrow> resolve stack ss = Inr (rev stack @ ss)"
proof (induction ss arbitrary: stack)
  case Nil
  show ?case by simp
next
  case (Cons x ss)
  then have "resolve stack (x # ss) = resolve (x # stack) ss"
    by (intro resolve_push) auto
  also have "\<dots> = Inr (rev (x # stack) @ ss)"
    using Cons.prems by (intro Cons.IH) auto
  finally show ?case by simp
qed

lemma normalize_render:
  assumes "normalize_segments raw = Inr segs"
  shows "normalize_path (render (take k segs)) = Inr (render (take k segs))"
proof -
  have clean: "\<forall>s\<in>set segs. s \<noteq> [] \<and> CHR ''/'' \<notin> set s"
    using assms normalize_segments_clean by blast
  have nodots: "''.'' \<notin> set segs \<and> ''..'' \<notin> set segs"
    using assms resolve_no_dots [of "[]" "segments raw" segs]
    by (simp add: normalize_segments_def)
  have "segments (render (take k segs)) = take k segs"
    using clean by (intro segments_render) (auto dest: in_set_takeD)
  moreover have "resolve [] (take k segs) = Inr (take k segs)"
    using nodots resolve_plain [of "take k segs" "[]"] by (auto dest: in_set_takeD)
  ultimately show ?thesis
    by (simp add: normalize_path_def normalize_segments_def)
qed

subsection \<open>Auto-materialization\<close>

lemma ensure_directory_is_directory:
  "ensure_directory ns p = Inr ns' \<Longrightarrow> is_directory ns' p"
  by (auto simp: ensure_directory_def is_directory_def new_directory_def
      split: option.splits if_splits)

lemma ensure_directory_keeps:
  "ensure_directory ns p = Inr ns' \<Longrightarrow> lists_child ns q c \<Longrightarrow> lists_child ns' q c"
  by (auto simp: ensure_directory_def lists_child_def split: option.splits if_splits)

lemma add_child_lists:
  "is_directory ns d \<Longrightarrow> lists_child (add_child ns d c) d c"
  by (auto simp: add_child_def lists_child_def is_directory_def split: option.splits)

lemma add_child_keeps:
  "lists_child ns q c' \<Longrightarrow> lists_child (add_child ns d c) q c'"
  by (auto simp: add_child_def lists_child_def split: option.splits)

lemma materialize_keeps:
  "materialize ns cur rest = Inr ns' \<Longrightarrow> lists_child ns q c \<Longrightarrow> lists_child ns' q c"
proof (induction rest arbitrary: ns cur)
  case Nil
  then show ?case by simp
next
  case (Cons s rest)
  then obtain ns1 where e: "ensure_directory ns (render cur) = Inr ns1"
    and m: "materialize (add_child ns1 (render cur) (render (cur @ [s]))) (cur @ [s]) rest = Inr ns'"
    by (auto split: sum.splits)
  have "lists_child (add_child ns1 (render cur) (render (cur @ [s]))) q c"
    using e Cons.prems(2) by (simp add: ensure_directory_keeps add_child_keeps)
  with m show ?case by (rule Cons.IH)
qed

lemma materialize_chain:
  "materialize ns cur rest = Inr ns' \<Longrightarrow> k < length rest \<Longrightarrow>
   lists_child ns' (render (cur @ take k rest)) (render (cur @ take (Suc k) rest))"
proof (induction rest arbitrary: ns cur k)
  case Nil
  then show ?case by simp
next
  case (Cons s rest)
  then obtain ns1 where e: "ensure_directory ns (render cur) = Inr ns1"
    and m: "materialize (add_child ns1 (render cur) (render (cur @ [s]))) (cur @ [s]) rest = Inr ns'"
    by (auto split: sum.splits)
  show ?case
  proof (cases k)
    case 0
    have "lists_child (add_child ns1 (render cur) (render (cur @ [s]))) (render cur) (render (cur @ [s]))"
      using e by (simp add: ensure_directory_is_directory add_child_lists)
    with m have "lists_child ns' (render cur) (render (cur @ [s]))"
      by (rule materialize_keeps)
    with 0 show ?thesis by simp
  next
    case (Suc j)
    with Cons.prems have "j < length rest" by simp
    with m have "lists_child ns' (render ((cur @ [s]) @ take j rest))
        (render ((cur @ [s]) @ take (Suc j) rest))"
      by (rule Cons.IH)
    with Suc show ?thesis by simp
  qed
qed

subsection \<open>Creating a file\<close>

lemma normalize_path_Inr:
  "(normalize_path raw = Inr p) = (\<exists>segs. normalize_segments raw = Inr segs \<and> p = render segs)"
  by (auto simp: normalize_path_def split: sum.splits)

lemma createFile_overwrite:
  assumes "normalize_path raw = Inr p" and "nodes vfs p = Some n" and "ntype n = File"
  shows "createFile vfs raw txt =
    (vfs\<lparr> nodes := (nodes vfs)(p \<mapsto> n\<lparr>content := Some txt\<rparr>), version := version vfs + 1 \<rparr>, Inr ())"
  using assms by (auto simp: createFile_def normalize_path_Inr)

lemma createFile_directory:
  assumes "normalize_path raw = Inr p" and "nodes vfs p = Some n" and "ntype n = Directory"
  shows "createFile vfs raw txt = (vfs, Inl PathConflict)"
  using assms by (auto simp: createFile_def normalize_path_Inr)

lemma file_or_directory: "ntype n \<noteq> Directory \<Longrightarrow> ntype n = File"
  by (cases "ntype n") simp_all

lemma createFile_result:
  assumes "createFile vfs raw txt = (vfs', Inr ())"
  shows "\<exists>segs n. normalize_segments raw = Inr segs \<and> nodes vfs' (render segs) = Some n
           \<and> ntype n = File \<and> content n = Some txt \<and> version vfs' = version vfs + 1"
proof -
  from assms obtain segs where segs: "normalize_segments raw = Inr segs"
    by (auto simp: createFile_def split: sum.splits)
  show ?thesis
  proof (cases "nodes vfs (render segs)")
    case None
    with assms segs obtain ns where
      "vfs' = vfs\<lparr> nodes := ns(render segs \<mapsto> new_file (render segs) txt),
                    version := version vfs + 1 \<rparr>"
      by (auto simp: createFile_def split: sum.splits if_splits)
    with segs show ?thesis by (simp add: new_file_def)
  next
    case (Some n)
    with assms segs have "ntype n \<noteq> Directory"
      and "vfs' = vfs\<lparr> nodes := (nodes vfs)(render segs \<mapsto> n\<lparr>content := Some txt\<rparr>),
                       version := version vfs + 1 \<rparr>"
      by (auto simp: createFile_def split: if_splits)
    with segs show ?thesis by (simp add: file_or_directory)
  qed
qed

lemma createFile_ancestors:
  assumes ok: "createFile vfs raw txt = (vfs', Inr ())"
    and segs: "normalize_segments raw = Inr segs"
    and absent: "nodes vfs (render segs) = None"
    and k: "k < length segs"
  shows "lists_child (nodes vfs') (render (take k segs)) (render (take (Suc k) segs))"
proof -
  from ok segs absent obtain ns where m: "materialize (nodes vfs) [] segs = Inr ns"
    and v': "nodes vfs' = ns(render segs \<mapsto> new_file (render segs) txt)"
    by (auto simp: createFile_def split: sum.splits if_splits)
  have "lists_child ns (render ([] @ take k segs)) (render ([] @ take (Suc k) segs))"
    using m k by (rule materialize_chain)
  moreover have "render (take k segs) \<noteq> render segs"
    using normalize_segments_clean [OF segs] k by (intro render_take_neq) auto
  ultimately show ?thesis
    using v' by (simp add: lists_child_def)
qed

lemma createFile_twice:
  assumes ok: "createFile vfs raw txt = (vfs', Inr ())"
  shows "createFile vfs' raw txt = (vfs'\<lparr>version := version vfs' + 1\<rparr>, Inr ())"
proof -
  from createFile_result [OF ok] obtain segs n where segs: "normalize_segments raw = Inr segs"
    and n: "nodes vfs' (render segs) = Some n" "ntype n = File" "content n = Some txt"
    by blast
  have same: "n\<lparr>content := Some txt\<rparr> = n"
    using n(3) by simp
  have "createFile vfs' raw txt =
      (vfs'\<lparr> nodes := (nodes vfs')(render segs \<mapsto> n\<lparr>content := Some txt\<rparr>),
             version := version vfs' + 1 \<rparr>, Inr ())"
    using segs n by (simp add: createFile_def)
  also have "(nodes vfs')(render segs \<mapsto> n\<lparr>content := Some txt\<rparr>) = nodes vfs'"
    unfolding same using n(1) by (rule map_upd_triv)
  finally show ?thesis by simp
qed

lemma list_vfs_child:
  assumes "lists_child (nodes vfs) d c" and "normalize_path d = Inr d"
  shows "\<exists>names. list_vfs vfs d = Inr names \<and> basename c \<in> set names"
  using assms by (auto simp: list_vfs_def lists_child_def split: option.splits)

lemma readFile_after_create:
  assumes "createFile vfs raw txt = (vfs', Inr ())"
  shows "readFile vfs' raw = Inr txt"
  using createFile_result [OF assms] by (auto simp: readFile_def normalize_path_def)

lemma ensure_directory_cases:
  "ensure_directory ns p = (if not_file ns p
     then Inr (case ns p of None \<Rightarrow> ns(p \<mapsto> new_directory p) | Some n \<Rightarrow> ns)
     else Inl PathConflict)"
  by (auto simp: ensure_directory_def not_file_def split: option.splits)

lemma step_nodes:
  assumes "ensure_directory ns d = Inr ns1"
  shows "add_child ns1 d c = ns(d \<mapsto> ancestor_node ns d c)"
  using assms
  by (auto simp: ensure_directory_def add_child_def ancestor_node_def new_directory_def
      split: option.splits if_splits)

lemma not_file_step:
  "not_file ns q \<Longrightarrow> not_file ns d \<Longrightarrow> not_file (ns(d \<mapsto> ancestor_node ns d c)) q"
  by (auto simp: not_file_def ancestor_node_def new_directory_def split: option.splits)

lemma file_step:
  "\<not> not_file ns q \<Longrightarrow> not_file ns d \<Longrightarrow> \<not> not_file (ns(d \<mapsto> ancestor_node ns d c)) q"
  by (auto simp: not_file_def ancestor_node_def new_directory_def split: option.splits)

lemma materialize_step:
  "materialize ns cur (s # rest) =
     (if not_file ns (render cur)
      then materialize (ns(render cur \<mapsto> ancestor_node ns (render cur) (render (cur @ [s]))))
             (cur @ [s]) rest
      else Inl PathConflict)"
proof (cases "not_file ns (render cur)")
  case True
  then obtain ns1 where e: "ensure_directory ns (render cur) = Inr ns1"
    by (simp add: ensure_directory_cases)
  then show ?thesis
    using True step_nodes [OF e] by simp
next
  case False
  then show ?thesis by (simp add: ensure_directory_cases)
qed

lemma materialize_succeeds_iff:
  "(\<exists>ns'. materialize ns cur rest = Inr ns')
     = (\<forall>k<length rest. not_file ns (render (cur @ take k rest)))"
proof (induction rest arbitrary: ns cur)
  case Nil
  show ?case by simp
next
  case (Cons s rest)
  let ?ns2 = "ns(render cur \<mapsto> ancestor_node ns (render cur) (render (cur @ [s])))"
  show ?case
  proof (cases "not_file ns (render cur)")
    case False
    then have "\<not> (\<forall>k<length (s # rest). not_file ns (render (cur @ take k (s # rest))))"
      by (auto intro: exI [of _ 0])
    with False show ?thesis by (simp add: materialize_step del: materialize.simps)
  next
    case True
    have keep: "\<And>q. not_file ?ns2 q = not_file ns q"
      using True not_file_step [of ns _ "render cur"] file_step [of ns _ "render cur"] by blast
    have "materialize ns cur (s # rest) = materialize ?ns2 (cur @ [s]) rest"
      using True by (simp add: materialize_step del: materialize.simps)
    then have "(\<exists>ns'. materialize ns cur (s # rest) = Inr ns')
        = (\<exists>ns'. materialize ?ns2 (cur @ [s]) rest = Inr ns')"
      by (simp only:)
    also have "\<dots> = (\<forall>k<length rest. not_file ?ns2 (render ((cur @ [s]) @ take k rest)))"
      by (rule Cons.IH)
    also have "\<dots> = (\<forall>k<length rest. not_file ns (render (cur @ take (Suc k) (s # rest))))"
      by (simp add: keep)
    also have "\<dots> = (\<forall>k<length (s # rest). not_file ns (render (cur @ take k (s # rest))))"
      using True by (auto simp: less_Suc_eq_0_disj)
    finally show ?thesis .
  qed
qed

lemma materialize_conflict:
  "materialize ns cur rest = Inl e \<Longrightarrow> e = PathConflict"
  by (induction rest arbitrary: ns cur)
    (auto simp: materialize_step simp del: materialize.simps(2) split: if_splits)

lemma render_extend_neq:
  assumes "\<forall>s\<in>set rest. s \<noteq> []" and "0 < k" and "k \<le> length rest"
  shows "render (cur @ take k rest) \<noteq> render cur"
proof -
  have "\<forall>s\<in>set (take k rest). s \<noteq> []"
    using assms(1) by (auto dest: in_set_takeD)
  moreover have "take k rest \<noteq> []"
    using assms(2,3) by auto
  ultimately have "length (render cur) < length (render (cur @ take k rest))"
    by (rule length_render_prefix)
  then show ?thesis by auto
qed

lemma materialize_frame:
  "materialize ns cur rest = Inr ns' \<Longrightarrow>
   (\<forall>k<length rest. q \<noteq> render (cur @ take k rest)) \<Longrightarrow> ns' q = ns q"
proof (induction rest arbitrary: ns cur)
  case Nil
  then show ?case by simp
next
  case (Cons s rest)
  let ?ns2 = "ns(render cur \<mapsto> ancestor_node ns (render cur) (render (cur @ [s])))"
  from Cons.prems(1) have m: "materialize ?ns2 (cur @ [s]) rest = Inr ns'"
    by (simp add: materialize_step del: materialize.simps split: if_splits)
  have "\<forall>k<length rest. q \<noteq> render ((cur @ [s]) @ take k rest)"
  proof (intro allI impI)
    fix k assume "k < length rest"
    then show "q \<noteq> render ((cur @ [s]) @ take k rest)"
      using Cons.prems(2) [rule_format, of "Suc k"] by simp
  qed
  with m have "ns' q = ?ns2 q" by (rule Cons.IH)
  moreover have "q \<noteq> render cur"
    using Cons.prems(2) [rule_format, of 0] by simp
  ultimately show ?case by simp
qed

lemma materialize_ancestor:
  "materialize ns cur rest = Inr ns' \<Longrightarrow> \<forall>s\<in>set rest. s \<noteq> [] \<Longrightarrow> k < length rest \<Longrightarrow>
   ns' (render (cur @ take k rest))
     = Some (ancestor_node ns (render (cur @ take k rest)) (render (cur @ take (Suc k) rest)))"
proof (induction rest arbitrary: ns cur k)
  case Nil
  then show ?case by simp
next
  case (Cons s rest)
  let ?ns2 = "ns(render cur \<mapsto> ancestor_node ns (render cur) (render (cur @ [s])))"
  from Cons.prems(1) have m: "materialize ?ns2 (cur @ [s]) rest = Inr ns'"
    by (simp add: materialize_step del: materialize.simps split: if_splits)
  have away: "\<And>j. j < length rest \<Longrightarrow> render ((cur @ [s]) @ take j rest) \<noteq> render cur"
  proof -
    fix j assume "j < length rest"
    then show "render ((cur @ [s]) @ take j rest) \<noteq> render cur"
      using render_extend_neq [of "s # rest" "Suc j" cur] Cons.prems(2) by simp
  qed
  show ?case
  proof (cases k)
    case 0
    have "\<forall>j<length rest. render cur \<noteq> render ((cur @ [s]) @ take j rest)"
      using away by metis
    with m have "ns' (render cur) = ?ns2 (render cur)"
      by (rule materialize_frame)
    with 0 show ?thesis by simp
  next
    case (Suc j)
    with Cons.prems(3) have j: "j < length rest" by simp
    have "ns' (render ((cur @ [s]) @ take j rest))
        = Some (ancestor_node ?ns2 (render ((cur @ [s]) @ take j rest))
                 (render ((cur @ [s]) @ take (Suc j) rest)))"
    proof (rule Cons.IH [OF m _ j])
      show "\<forall>s\<in>set rest. s \<noteq> []" using Cons.prems(2) by simp
    qed
    moreover have "ancestor_node ?ns2 (render ((cur @ [s]) @ take j rest)) c
        = ancestor_node ns (render ((cur @ [s]) @ take j rest)) c" for c
      using away [OF j] by (simp add: ancestor_node_def)
    ultimately show ?thesis using Suc by simp
  qed
qed

lemma createFile_invalid:
  "normalize_segments raw = Inl e \<Longrightarrow> createFile vfs raw txt = (vfs, Inl e)"
  by (simp add: createFile_def)

lemma createFile_absent:
  assumes "normalize_segments raw = Inr segs" and "nodes vfs (render segs) = None"
  shows "createFile vfs raw txt =
     (if segs = [] then (vfs, Inl PathConflict)
      else (case materialize (nodes vfs) [] segs of
              Inl e \<Rightarrow> (vfs, Inl e)
            | Inr ns \<Rightarrow> (vfs\<lparr> nodes := ns(render segs \<mapsto> new_file (render segs) txt),
                               version := version vfs + 1 \<rparr>, Inr ())))"
  using assms by (simp add: createFile_def)

lemma createFile_absent_succeeds:
  assumes segs: "normalize_segments raw = Inr segs" and absent: "nodes vfs (render segs) = None"
    and "segs \<noteq> []" and free: "\<forall>k<length segs. not_file (nodes vfs) (render (take k segs))"
  shows "\<exists>vfs'. createFile vfs raw txt = (vfs', Inr ())"
proof -
  from free have "\<forall>k<length segs. not_file (nodes vfs) (render ([] @ take k segs))"
    by simp
  then obtain ns where "materialize (nodes vfs) [] segs = Inr ns"
    using materialize_succeeds_iff [of "nodes vfs" "[]" segs] by blast
  with assms(3) show ?thesis
    by (simp add: createFile_absent [OF segs absent])
qed

lemma createFile_absent_conflict:
  assumes segs: "normalize_segments raw = Inr segs" and absent: "nodes vfs (render segs) = None"
    and blocked: "\<not> (segs \<noteq> [] \<and> (\<forall>k<length segs. not_file (nodes vfs) (render (take k segs))))"
  shows "createFile vfs raw txt = (vfs, Inl PathConflict)"
proof (cases "segs = []")
  case True
  then show ?thesis by (simp add: createFile_absent [OF segs absent])
next
  case False
  with blocked have "\<not> (\<forall>k<length segs. not_file (nodes vfs) (render ([] @ take k segs)))"
    by simp
  then have "\<not> (\<exists>ns. materialize (nodes vfs) [] segs = Inr ns)"
    using materialize_succeeds_iff [of "nodes vfs" "[]" segs] by blast
  then obtain e where e: "materialize (nodes vfs) [] segs = Inl e"
    by (cases "materialize (nodes vfs) [] segs") auto
  then have "e = PathConflict" by (rule materialize_conflict)
  with e False show ?thesis
    by (simp add: createFile_absent [OF segs absent])
qed

lemma createFile_absent_nodes:
  assumes ok: "createFile vfs raw txt = (vfs', Inr ())"
    and segs: "normalize_segments raw = Inr segs" and absent: "nodes vfs (render segs) = None"
  shows "nodes vfs' (render segs) = Some (new_file (render segs) txt)"
    and "k < length segs \<Longrightarrow> nodes vfs' (render (take k segs))
          = Some (ancestor_node (nodes vfs) (render (take k segs)) (render (take (Suc k) segs)))"
    and "q \<noteq> render segs \<Longrightarrow> \<forall>k<length segs. q \<noteq> render (take k segs) \<Longrightarrow>
          nodes vfs' q = nodes vfs q"
proof -
  from ok obtain ns where m: "materialize (nodes vfs) [] segs = Inr ns"
    and v': "nodes vfs' = ns(render segs \<mapsto> new_file (render segs) txt)"
    by (auto simp: createFile_absent [OF segs absent] split: if_splits sum.splits)
  have clean: "\<forall>s\<in>set segs. s \<noteq> []"
    using normalize_segments_clean [OF segs] by blast
  show "nodes vfs' (render segs) = Some (new_file (render segs) txt)"
    using v' by simp
  show "nodes vfs' (render (take k segs))
          = Some (ancestor_node (nodes vfs) (render (take k segs)) (render (take (Suc k) segs)))"
    if k: "k < length segs"
  proof -
    have "render (take k segs) \<noteq> render segs"
      using clean k by (rule render_take_neq)
    moreover have "ns (render ([] @ take k segs))
        = Some (ancestor_node (nodes vfs) (render ([] @ take k segs)) (render ([] @ take (Suc k) segs)))"
      using m clean k by (rule materialize_ancestor)
    ultimately show ?thesis using v' by simp
  qed
  show "nodes vfs' q = nodes vfs q"
    if "q \<noteq> render segs" and "\<forall>k<length segs. q \<noteq> render (take k segs)"
  proof -
    from that(2) have "\<forall>k<length segs. q \<noteq> render ([] @ take k segs)" by simp
    with m have "ns q = nodes vfs q" by (rule materialize_frame)
    with that(1) v' show ?thesis by simp
  qed
qed

lemma createFile_failure_keeps:
  "snd (createFile vfs raw txt) = Inl e \<Longrightarrow> fst (createFile vfs raw txt) = vfs"
  by (auto simp: createFile_def split: sum.splits option.splits if_splits)

lemma createFile_keeps_other_files:
  assumes ok: "createFile vfs raw txt = (vfs', Inr ())"
    and r: "readFile vfs raw2 = Inr c" and ne: "normalize_path raw2 \<noteq> normalize_path raw"
  shows "readFile vfs' raw2 = Inr c"
proof -
  from r obtain q n where q: "normalize_path raw2 = Inr q" and n: "nodes vfs q = Some n"
    and f: "ntype n \<noteq> Directory"
    by (auto simp: readFile_def split: sum.splits option.splits if_splits)
  from ok obtain segs where segs: "normalize_segments raw = Inr segs"
    by (auto simp: createFile_def split: sum.splits)
  with q ne have qp: "q \<noteq> render segs"
    by (auto simp: normalize_path_def)
  have "nodes vfs' q = nodes vfs q"
  proof (cases "nodes vfs (render segs)")
    case (Some m)
    with ok segs qp show ?thesis
      by (auto simp: createFile_def split: if_splits)
  next
    case None
    have "segs \<noteq> [] \<and> (\<forall>k<length segs. not_file (nodes vfs) (render (take k segs)))"
      using createFile_absent_conflict [OF segs None, of "txt"] ok by auto
    then have "\<forall>k<length segs. q \<noteq> render (take k segs)"
      using n f by (auto simp: not_file_def)
    with qp show ?thesis
      using createFile_absent_nodes(3) [OF ok segs None] by blast
  qed
  with r q show ?thesis by (simp add: readFile_def)
qed

lemma createFile_lists_ancestors:
  assumes ok: "createFile vfs raw txt = (vfs', Inr ())"
    and segs: "normalize_segments raw = Inr segs" and absent: "nodes vfs (render segs) = None"
    and k: "k < length segs"
  shows "\<exists>names. list_vfs vfs' (render (take k segs)) = Inr names \<and> segs ! k \<in> set names"
proof -
  have lc: "lists_child (nodes vfs') (render (take k segs)) (render (take (Suc k) segs))"
    using ok segs absent k by (rule createFile_ancestors)
  have "normalize_path (render (take k segs)) = Inr (render (take k segs))"
    using segs by (rule normalize_render)
  with lc obtain names where l: "list_vfs vfs' (render (take k segs)) = Inr names"
    and b: "basename (render (take (Suc k) segs)) \<in> set names"
    using list_vfs_child by blast
  have "CHR ''/'' \<notin> set (segs ! k)"
    using k normalize_segments_clean [OF segs, of "segs ! k"] by simp
  then have "basename (render (take k segs @ [segs ! k])) = segs ! k"
    by (rule basename_render)
  then have "basename (render (take (Suc k) segs)) = segs ! k"
    using k by (simp add: take_Suc_conv_app_nth)
  with l b show ?thesis by auto
qed

text \<open>
  C2. \<open>createFile(path, content)\<close> is an upsert, for every tree. A file at the
  normalized path is overwritten and nothing else changes. A directory there makes
  the call fail with \<open>PathConflict\<close>. A path that is absent is created exactly when
  no proper ancestor is a file (otherwise \<open>PathConflict\<close>; the root cannot become a
  file): the new node is the file, every proper ancestor is a directory, kept as it
  was or created, that gains the next node of the path as a child, so that \<open>list\<close>
  of the ancestor contains the next segment, and every other node of the tree is
  untouched. On success the file reads back as the content, every other file reads
  as before, the version is one more, and the same call again changes nothing but
  the version. A call that fails leaves the tree as it was.
\<close>

theorem createFile_upsert:
  "(\<forall>e. normalize_segments raw = Inl e \<longrightarrow> createFile vfs raw txt = (vfs, Inl e))
   \<and> (\<forall>p n. normalize_path raw = Inr p \<and> nodes vfs p = Some n \<and> ntype n = File \<longrightarrow>
      createFile vfs raw txt =
        (vfs\<lparr> nodes := (nodes vfs)(p \<mapsto> n\<lparr>content := Some txt\<rparr>),
              version := version vfs + 1 \<rparr>, Inr ()))
   \<and> (\<forall>p n. normalize_path raw = Inr p \<and> nodes vfs p = Some n \<and> ntype n = Directory \<longrightarrow>
      createFile vfs raw txt = (vfs, Inl PathConflict))
   \<and> (\<forall>segs. normalize_segments raw = Inr segs \<and> nodes vfs (render segs) = None \<longrightarrow>
        (if segs \<noteq> [] \<and> (\<forall>k<length segs. not_file (nodes vfs) (render (take k segs)))
         then \<exists>vfs'. createFile vfs raw txt = (vfs', Inr ())
         else createFile vfs raw txt = (vfs, Inl PathConflict))
        \<and> (\<forall>vfs'. createFile vfs raw txt = (vfs', Inr ()) \<longrightarrow>
              nodes vfs' (render segs) = Some (new_file (render segs) txt)
              \<and> (\<forall>k<length segs.
                    nodes vfs' (render (take k segs))
                      = Some (ancestor_node (nodes vfs) (render (take k segs))
                                (render (take (Suc k) segs)))
                    \<and> (\<exists>names. list_vfs vfs' (render (take k segs)) = Inr names
                          \<and> segs ! k \<in> set names))
              \<and> (\<forall>q. q \<noteq> render segs \<and> (\<forall>k<length segs. q \<noteq> render (take k segs)) \<longrightarrow>
                    nodes vfs' q = nodes vfs q)))
   \<and> (\<forall>vfs'. createFile vfs raw txt = (vfs', Inr ()) \<longrightarrow>
        readFile vfs' raw = Inr txt
        \<and> version vfs' = version vfs + 1
        \<and> (\<forall>raw2 c. readFile vfs raw2 = Inr c \<and> normalize_path raw2 \<noteq> normalize_path raw \<longrightarrow>
              readFile vfs' raw2 = Inr c)
        \<and> createFile vfs' raw txt = (vfs'\<lparr>version := version vfs' + 1\<rparr>, Inr ()))
   \<and> (\<forall>e. snd (createFile vfs raw txt) = Inl e \<longrightarrow> fst (createFile vfs raw txt) = vfs)"
proof -
  have invalid: "\<forall>e. normalize_segments raw = Inl e \<longrightarrow> createFile vfs raw txt = (vfs, Inl e)"
    by (simp add: createFile_invalid)
  have overwrite: "\<forall>p n. normalize_path raw = Inr p \<and> nodes vfs p = Some n \<and> ntype n = File \<longrightarrow>
      createFile vfs raw txt =
        (vfs\<lparr> nodes := (nodes vfs)(p \<mapsto> n\<lparr>content := Some txt\<rparr>),
              version := version vfs + 1 \<rparr>, Inr ())"
    by (simp add: createFile_overwrite)
  have directory: "\<forall>p n. normalize_path raw = Inr p \<and> nodes vfs p = Some n \<and> ntype n = Directory \<longrightarrow>
      createFile vfs raw txt = (vfs, Inl PathConflict)"
    using createFile_directory by blast
  have absent: "\<forall>segs. normalize_segments raw = Inr segs \<and> nodes vfs (render segs) = None \<longrightarrow>
        (if segs \<noteq> [] \<and> (\<forall>k<length segs. not_file (nodes vfs) (render (take k segs)))
         then \<exists>vfs'. createFile vfs raw txt = (vfs', Inr ())
         else createFile vfs raw txt = (vfs, Inl PathConflict))
        \<and> (\<forall>vfs'. createFile vfs raw txt = (vfs', Inr ()) \<longrightarrow>
              nodes vfs' (render segs) = Some (new_file (render segs) txt)
              \<and> (\<forall>k<length segs.
                    nodes vfs' (render (take k segs))
                      = Some (ancestor_node (nodes vfs) (render (take k segs))
                                (render (take (Suc k) segs)))
                    \<and> (\<exists>names. list_vfs vfs' (render (take k segs)) = Inr names
                          \<and> segs ! k \<in> set names))
              \<and> (\<forall>q. q \<noteq> render segs \<and> (\<forall>k<length segs. q \<noteq> render (take k segs)) \<longrightarrow>
                    nodes vfs' q = nodes vfs q))"
  proof (intro allI impI)
    fix segs
    assume h: "normalize_segments raw = Inr segs \<and> nodes vfs (render segs) = None"
    then have segs: "normalize_segments raw = Inr segs"
      and none: "nodes vfs (render segs) = None" by simp_all
    have succeeds: "if segs \<noteq> [] \<and> (\<forall>k<length segs. not_file (nodes vfs) (render (take k segs)))
         then \<exists>vfs'. createFile vfs raw txt = (vfs', Inr ())
         else createFile vfs raw txt = (vfs, Inl PathConflict)"
      using createFile_absent_succeeds [OF segs none, of "txt"]
        createFile_absent_conflict [OF segs none, of "txt"]
      by (cases "segs \<noteq> [] \<and> (\<forall>k<length segs. not_file (nodes vfs) (render (take k segs)))")
         simp_all
    have result: "\<forall>vfs'. createFile vfs raw txt = (vfs', Inr ()) \<longrightarrow>
              nodes vfs' (render segs) = Some (new_file (render segs) txt)
              \<and> (\<forall>k<length segs.
                    nodes vfs' (render (take k segs))
                      = Some (ancestor_node (nodes vfs) (render (take k segs))
                                (render (take (Suc k) segs)))
                    \<and> (\<exists>names. list_vfs vfs' (render (take k segs)) = Inr names
                          \<and> segs ! k \<in> set names))
              \<and> (\<forall>q. q \<noteq> render segs \<and> (\<forall>k<length segs. q \<noteq> render (take k segs)) \<longrightarrow>
                    nodes vfs' q = nodes vfs q)"
    proof (intro allI impI)
      fix vfs' assume ok: "createFile vfs raw txt = (vfs', Inr ())"
      have created: "nodes vfs' (render segs) = Some (new_file (render segs) txt)"
        using ok segs none by (rule createFile_absent_nodes(1))
      have ancestors: "\<forall>k<length segs.
          nodes vfs' (render (take k segs))
            = Some (ancestor_node (nodes vfs) (render (take k segs)) (render (take (Suc k) segs)))
          \<and> (\<exists>names. list_vfs vfs' (render (take k segs)) = Inr names \<and> segs ! k \<in> set names)"
        using createFile_absent_nodes(2) [OF ok segs none]
          createFile_lists_ancestors [OF ok segs none] by blast
      have frame: "\<forall>q. q \<noteq> render segs \<and> (\<forall>k<length segs. q \<noteq> render (take k segs)) \<longrightarrow>
          nodes vfs' q = nodes vfs q"
        using createFile_absent_nodes(3) [OF ok segs none] by blast
      show "nodes vfs' (render segs) = Some (new_file (render segs) txt)
              \<and> (\<forall>k<length segs.
                    nodes vfs' (render (take k segs))
                      = Some (ancestor_node (nodes vfs) (render (take k segs))
                                (render (take (Suc k) segs)))
                    \<and> (\<exists>names. list_vfs vfs' (render (take k segs)) = Inr names
                          \<and> segs ! k \<in> set names))
              \<and> (\<forall>q. q \<noteq> render segs \<and> (\<forall>k<length segs. q \<noteq> render (take k segs)) \<longrightarrow>
                    nodes vfs' q = nodes vfs q)"
        by (intro conjI; fact)
    qed
    from succeeds result
    show "(if segs \<noteq> [] \<and> (\<forall>k<length segs. not_file (nodes vfs) (render (take k segs)))
         then \<exists>vfs'. createFile vfs raw txt = (vfs', Inr ())
         else createFile vfs raw txt = (vfs, Inl PathConflict))
        \<and> (\<forall>vfs'. createFile vfs raw txt = (vfs', Inr ()) \<longrightarrow>
              nodes vfs' (render segs) = Some (new_file (render segs) txt)
              \<and> (\<forall>k<length segs.
                    nodes vfs' (render (take k segs))
                      = Some (ancestor_node (nodes vfs) (render (take k segs))
                                (render (take (Suc k) segs)))
                    \<and> (\<exists>names. list_vfs vfs' (render (take k segs)) = Inr names
                          \<and> segs ! k \<in> set names))
              \<and> (\<forall>q. q \<noteq> render segs \<and> (\<forall>k<length segs. q \<noteq> render (take k segs)) \<longrightarrow>
                    nodes vfs' q = nodes vfs q))"
      by (rule conjI)
  qed
  have success: "\<forall>vfs'. createFile vfs raw txt = (vfs', Inr ()) \<longrightarrow>
        readFile vfs' raw = Inr txt
        \<and> version vfs' = version vfs + 1
        \<and> (\<forall>raw2 c. readFile vfs raw2 = Inr c \<and> normalize_path raw2 \<noteq> normalize_path raw \<longrightarrow>
              readFile vfs' raw2 = Inr c)
        \<and> createFile vfs' raw txt = (vfs'\<lparr>version := version vfs' + 1\<rparr>, Inr ())"
  proof (intro allI impI)
    fix vfs' assume ok: "createFile vfs raw txt = (vfs', Inr ())"
    have "readFile vfs' raw = Inr txt"
      using ok by (rule readFile_after_create)
    moreover have "version vfs' = version vfs + 1"
      using createFile_result [OF ok] by blast
    moreover have "\<forall>raw2 c. readFile vfs raw2 = Inr c \<and> normalize_path raw2 \<noteq> normalize_path raw \<longrightarrow>
          readFile vfs' raw2 = Inr c"
      using createFile_keeps_other_files [OF ok] by blast
    moreover have "createFile vfs' raw txt = (vfs'\<lparr>version := version vfs' + 1\<rparr>, Inr ())"
      using ok by (rule createFile_twice)
    ultimately show "readFile vfs' raw = Inr txt
        \<and> version vfs' = version vfs + 1
        \<and> (\<forall>raw2 c. readFile vfs raw2 = Inr c \<and> normalize_path raw2 \<noteq> normalize_path raw \<longrightarrow>
              readFile vfs' raw2 = Inr c)
        \<and> createFile vfs' raw txt = (vfs'\<lparr>version := version vfs' + 1\<rparr>, Inr ())"
      by (intro conjI)
  qed
  have failure: "\<forall>e. snd (createFile vfs raw txt) = Inl e \<longrightarrow> fst (createFile vfs raw txt) = vfs"
    by (simp add: createFile_failure_keeps)
  show ?thesis
    by (intro conjI; fact)
qed

lemma one_file_tree_nodes:
  "createFile empty_vfs ''/a/x.txt'' ''1'' =
     (\<lparr> nodes = [''/'' \<mapsto> \<lparr> path = ''/'', ntype = Directory, content = None,
                                childPaths = {|''/a''|} \<rparr>,
                 ''/a'' \<mapsto> \<lparr> path = ''/a'', ntype = Directory, content = None,
                                 childPaths = {|''/a/x.txt''|} \<rparr>,
                 ''/a/x.txt'' \<mapsto> new_file ''/a/x.txt'' ''1''],
         version = 1 \<rparr>, Inr ())"
  by (simp add: createFile_def normalize_segments_def segments_def render_def empty_vfs_def
      ensure_directory_def add_child_def new_directory_def)

lemma one_file_tree_eq:
  "one_file_tree =
     \<lparr> nodes = [''/'' \<mapsto> \<lparr> path = ''/'', ntype = Directory, content = None,
                                childPaths = {|''/a''|} \<rparr>,
                 ''/a'' \<mapsto> \<lparr> path = ''/a'', ntype = Directory, content = None,
                                 childPaths = {|''/a/x.txt''|} \<rparr>,
                 ''/a/x.txt'' \<mapsto> new_file ''/a/x.txt'' ''1''],
         version = 1 \<rparr>"
  by (simp add: one_file_tree_def one_file_tree_nodes)

lemma segs_deep: "normalize_segments ''/a/b/c/d.txt'' = Inr [''a'', ''b'', ''c'', ''d.txt'']"
  and segs_y: "normalize_segments ''/a/y.txt'' = Inr [''a'', ''y.txt'']"
  and segs_z: "normalize_segments ''/a/x.txt/z'' = Inr [''a'', ''x.txt'', ''z'']"
  and segs_x: "normalize_segments ''/a/x.txt'' = Inr [''a'', ''x.txt'']"
  and segs_dir: "normalize_segments ''/a//'' = Inr [''a'']"
  and segs_root: "normalize_segments ''/'' = Inr []"
  and segs_escape: "normalize_segments ''/../x'' = Inl InvalidPath"
  by (simp_all add: normalize_segments_def segments_def)

lemma empty_vfs_facts:
  "nodes empty_vfs ''/'' = Some (new_directory ''/'')"
  "p \<noteq> ''/'' \<Longrightarrow> nodes empty_vfs p = None"
  "not_file (nodes empty_vfs) p"
  by (simp_all add: empty_vfs_def not_file_def new_directory_def)

lemma one_file_tree_facts:
  "nodes one_file_tree ''/a/y.txt'' = None"
  "nodes one_file_tree ''/a/x.txt/z'' = None"
  "nodes one_file_tree ''/a/x.txt'' = Some (new_file ''/a/x.txt'' ''1'')"
  "\<exists>n. nodes one_file_tree ''/a'' = Some n \<and> ntype n = Directory"
  "not_file (nodes one_file_tree) ''/''"
  "not_file (nodes one_file_tree) ''/a''"
  "\<not> not_file (nodes one_file_tree) ''/a/x.txt''"
  by (simp_all add: one_file_tree_eq not_file_def new_file_def)

lemma example_paths:
  "render [] = ''/''"
  "render [''a''] = ''/a''"
  "render [''a'', ''b''] = ''/a/b''"
  "render [''a'', ''b'', ''c''] = ''/a/b/c''"
  "render [''a'', ''b'', ''c'', ''d.txt''] = ''/a/b/c/d.txt''"
  "render [''a'', ''x.txt''] = ''/a/x.txt''"
  "render [''a'', ''y.txt''] = ''/a/y.txt''"
  "render [''a'', ''x.txt'', ''z''] = ''/a/x.txt/z''"
  by (simp_all add: render_def)

theorem createFile_upsert_witness:
  "snd (createFile empty_vfs ''/a/b/c/d.txt'' ''x'') = Inr ()
   \<and> (\<exists>names. list_vfs (fst (createFile empty_vfs ''/a/b/c/d.txt'' ''x'')) ''/a/b'' = Inr names
         \<and> ''c'' \<in> set names)
   \<and> (\<exists>names. list_vfs (fst (createFile empty_vfs ''/a/b/c/d.txt'' ''x'')) ''/a/b/c'' = Inr names
         \<and> ''d.txt'' \<in> set names)
   \<and> readFile one_file_tree ''/a/x.txt'' = Inr ''1''
   \<and> snd (createFile one_file_tree ''/a/y.txt'' ''2'') = Inr ()
   \<and> readFile (fst (createFile one_file_tree ''/a/y.txt'' ''2'')) ''/a/y.txt'' = Inr ''2''
   \<and> readFile (fst (createFile one_file_tree ''/a/y.txt'' ''2'')) ''/a/x.txt'' = Inr ''1''
   \<and> createFile one_file_tree ''/a/x.txt/z'' ''q'' = (one_file_tree, Inl PathConflict)
   \<and> createFile one_file_tree ''/a//'' ''y'' = (one_file_tree, Inl PathConflict)
   \<and> createFile one_file_tree ''/a/x.txt'' ''1''
       = (one_file_tree\<lparr>version := version one_file_tree + 1\<rparr>, Inr ())
   \<and> readFile (fst (createFile one_file_tree ''/a/x.txt'' ''new'')) ''/a/x.txt'' = Inr ''new''
   \<and> createFile empty_vfs ''/'' ''x'' = (empty_vfs, Inl PathConflict)
   \<and> createFile empty_vfs ''/../x'' ''x'' = (empty_vfs, Inl InvalidPath)"
proof -
  note absent = createFile_upsert
    [THEN conjunct2, THEN conjunct2, THEN conjunct2, THEN conjunct1, rule_format]
  note success = createFile_upsert
    [THEN conjunct2, THEN conjunct2, THEN conjunct2, THEN conjunct2, THEN conjunct1, rule_format]
  have "\<forall>k<length [''a'', ''b'', ''c'', ''d.txt''].
      not_file (nodes empty_vfs) (render (take k [''a'', ''b'', ''c'', ''d.txt'']))"
    by (simp add: empty_vfs_facts)
  moreover have deep_absent: "normalize_segments ''/a/b/c/d.txt'' = Inr [''a'', ''b'', ''c'', ''d.txt'']
      \<and> nodes empty_vfs (render [''a'', ''b'', ''c'', ''d.txt'']) = None"
    by (simp add: segs_deep example_paths empty_vfs_facts)
  ultimately have "\<exists>vfs'. createFile empty_vfs ''/a/b/c/d.txt'' ''x'' = (vfs', Inr ())"
    using absent [OF deep_absent, of "''x''", THEN conjunct1] by simp
  then obtain d where d: "createFile empty_vfs ''/a/b/c/d.txt'' ''x'' = (d, Inr ())" ..
  have anc: "\<forall>k<length [''a'', ''b'', ''c'', ''d.txt''].
      nodes d (render (take k [''a'', ''b'', ''c'', ''d.txt'']))
        = Some (ancestor_node (nodes empty_vfs) (render (take k [''a'', ''b'', ''c'', ''d.txt'']))
                  (render (take (Suc k) [''a'', ''b'', ''c'', ''d.txt''])))
      \<and> (\<exists>names. list_vfs d (render (take k [''a'', ''b'', ''c'', ''d.txt''])) = Inr names
            \<and> [''a'', ''b'', ''c'', ''d.txt''] ! k \<in> set names)"
    using absent [OF deep_absent, of "''x''", THEN conjunct2, rule_format, OF d] by blast
  have l2: "\<exists>names. list_vfs d ''/a/b'' = Inr names \<and> ''c'' \<in> set names"
    using anc [rule_format, of 2] by (simp add: example_paths)
  have l3: "\<exists>names. list_vfs d ''/a/b/c'' = Inr names \<and> ''d.txt'' \<in> set names"
    using anc [rule_format, of 3] by (simp add: example_paths)
  have first: "createFile empty_vfs ''/a/x.txt'' ''1'' = (one_file_tree, Inr ())"
    by (simp add: one_file_tree_nodes one_file_tree_eq)
  have rx: "readFile one_file_tree ''/a/x.txt'' = Inr ''1''"
    and again: "createFile one_file_tree ''/a/x.txt'' ''1''
       = (one_file_tree\<lparr>version := version one_file_tree + 1\<rparr>, Inr ())"
    using success [OF first] by simp_all
  have y_absent: "normalize_segments ''/a/y.txt'' = Inr [''a'', ''y.txt'']
      \<and> nodes one_file_tree (render [''a'', ''y.txt'']) = None"
    by (simp add: segs_y example_paths one_file_tree_facts)
  have "\<forall>k<length [''a'', ''y.txt''].
      not_file (nodes one_file_tree) (render (take k [''a'', ''y.txt'']))"
    by (simp add: All_less_Suc2 example_paths one_file_tree_facts)
  then have "\<exists>vfs'. createFile one_file_tree ''/a/y.txt'' ''2'' = (vfs', Inr ())"
    using absent [OF y_absent, of "''2''", THEN conjunct1] by simp
  then obtain v2 where v2: "createFile one_file_tree ''/a/y.txt'' ''2'' = (v2, Inr ())" ..
  have differ: "normalize_path ''/a/x.txt'' \<noteq> normalize_path ''/a/y.txt''"
    by (simp add: normalize_path_def segs_x segs_y example_paths)
  have ry: "readFile v2 ''/a/y.txt'' = Inr ''2''"
    using success [OF v2] by simp
  have keep: "readFile v2 ''/a/x.txt'' = Inr ''1''"
    using success [OF v2] rx differ by blast
  have z_absent: "normalize_segments ''/a/x.txt/z'' = Inr [''a'', ''x.txt'', ''z'']
      \<and> nodes one_file_tree (render [''a'', ''x.txt'', ''z'']) = None"
    by (simp add: segs_z example_paths one_file_tree_facts)
  have "\<not> (\<forall>k<length [''a'', ''x.txt'', ''z''].
      not_file (nodes one_file_tree) (render (take k [''a'', ''x.txt'', ''z''])))"
    by (simp add: All_less_Suc2 example_paths one_file_tree_facts)
  then have z: "createFile one_file_tree ''/a/x.txt/z'' ''q'' = (one_file_tree, Inl PathConflict)"
    using absent [OF z_absent, of "''q''", THEN conjunct1] by simp
  have "normalize_path ''/a//'' = Inr ''/a''"
    by (simp add: normalize_path_def segs_dir example_paths)
  then have dir: "createFile one_file_tree ''/a//'' ''y'' = (one_file_tree, Inl PathConflict)"
    using createFile_upsert [of "''/a//''" one_file_tree "''y''", THEN conjunct2, THEN conjunct2,
        THEN conjunct1] one_file_tree_facts(4) by blast
  have "normalize_path ''/a/x.txt'' = Inr ''/a/x.txt''"
    by (simp add: normalize_path_def segs_x example_paths)
  then have "snd (createFile one_file_tree ''/a/x.txt'' ''new'') = Inr ()"
    using createFile_upsert [of "''/a/x.txt''" one_file_tree "''new''", THEN conjunct2,
        THEN conjunct1, rule_format, of "''/a/x.txt''" "new_file ''/a/x.txt'' ''1''"]
    by (simp add: one_file_tree_facts new_file_def)
  then have "createFile one_file_tree ''/a/x.txt'' ''new''
      = (fst (createFile one_file_tree ''/a/x.txt'' ''new''), Inr ())"
    by (simp add: prod_eq_iff)
  then have new: "readFile (fst (createFile one_file_tree ''/a/x.txt'' ''new'')) ''/a/x.txt'' = Inr ''new''"
    using success by blast
  have root: "createFile empty_vfs ''/'' ''x'' = (empty_vfs, Inl PathConflict)"
    using createFile_upsert [of "''/''" empty_vfs "''x''", THEN conjunct2, THEN conjunct2,
        THEN conjunct1, rule_format, of "''/''" "new_directory ''/''"]
    by (simp add: normalize_path_def segs_root example_paths empty_vfs_facts new_directory_def)
  have escape: "createFile empty_vfs ''/../x'' ''x'' = (empty_vfs, Inl InvalidPath)"
    using createFile_upsert [of "''/../x''" empty_vfs "''x''", THEN conjunct1] segs_escape
    by simp
  show ?thesis
    using d l2 l3 rx v2 ry keep z dir again new root escape by simp
qed

subsection \<open>Replacing in a file\<close>

lemma starts_with_take: "starts_with s p = (take (length p) s = p)"
  by (induction s p rule: starts_with.induct) auto

lemma count_occurrences_positions:
  "count_occurrences old c =
     length (filter (\<lambda>i. take (length old) (drop i c) = old) [0..<Suc (length c)])"
proof (induction c)
  case Nil
  then show ?case by auto
next
  case (Cons x xs)
  have "[0..<Suc (length (x # xs))] = 0 # map Suc [0..<Suc (length xs)]"
    by (simp add: upt_conv_Cons map_Suc_upt del: upt_Suc)
  then have "filter (\<lambda>i. take (length old) (drop i (x # xs)) = old) [0..<Suc (length (x # xs))]
      = (if take (length old) (x # xs) = old then [0] else [])
        @ map Suc (filter (\<lambda>i. take (length old) (drop i xs) = old) [0..<Suc (length xs)])"
    by (simp add: filter_map comp_def del: upt_Suc)
  with Cons show ?case
    by (simp add: starts_with_take del: upt_Suc)
qed

lemma replace_first_splits:
  "0 < count_occurrences old c \<Longrightarrow>
   \<exists>pre post. c = pre @ old @ post \<and> replace_first old new c = pre @ new @ post"
proof (induction c)
  case Nil
  then show ?case by (auto split: if_splits)
next
  case (Cons x xs)
  show ?case
  proof (cases "starts_with (x # xs) old")
    case True
    then have "x # xs = [] @ old @ drop (length old) (x # xs)"
      by (metis append_Nil append_take_drop_id starts_with_take)
    moreover from True have "replace_first old new (x # xs) = [] @ new @ drop (length old) (x # xs)"
      by simp
    ultimately show ?thesis by blast
  next
    case False
    with Cons.prems have "0 < count_occurrences old xs" by simp
    then obtain pre post where "xs = pre @ old @ post"
      and "replace_first old new xs = pre @ new @ post"
      using Cons.IH by blast
    with False have "x # xs = (x # pre) @ old @ post"
      and "replace_first old new (x # xs) = (x # pre) @ new @ post"
      by simp_all
    then show ?thesis by blast
  qed
qed

lemma replaceInFile_unreadable:
  "readFile vfs raw = Inl e \<Longrightarrow> replaceInFile vfs raw old new = (vfs, Inl e)"
  by (auto simp: replaceInFile_def readFile_def split: sum.splits option.splits if_splits)

lemma replaceInFile_ambiguous:
  "readFile vfs raw = Inr c \<Longrightarrow> count_occurrences old c \<noteq> 1 \<Longrightarrow>
   replaceInFile vfs raw old new = (vfs, Inl NotFound)"
  by (auto simp: replaceInFile_def readFile_def split: sum.splits option.splits if_splits)

lemma replaceInFile_unique:
  "readFile vfs raw = Inr c \<Longrightarrow> count_occurrences old c = 1 \<Longrightarrow>
   snd (replaceInFile vfs raw old new) = Inr ()"
  by (auto simp: replaceInFile_def readFile_def split: sum.splits option.splits if_splits)

lemma replaceInFile_success:
  assumes "readFile vfs raw = Inr c" and "count_occurrences old c = 1"
  shows "readFile (fst (replaceInFile vfs raw old new)) raw = Inr (replace_first old new c)
       \<and> version (fst (replaceInFile vfs raw old new)) = version vfs + 1"
  using assms
  by (auto simp: replaceInFile_def readFile_def split: sum.splits option.splits if_splits)

text \<open>
  C4. \<open>replaceInFile(path, oldText, newText)\<close> fails with \<open>NotFound\<close> when the
  file does not exist (\<open>readFile\<close> reports \<open>NotFound\<close>) and when \<open>oldText\<close> occurs
  zero or more than one time in the content; on every failure the tree, and so the
  file's content, is what it was before the call. The call succeeds exactly when
  the file exists and \<open>oldText\<close> occurs exactly once, and then that occurrence is
  replaced and the version is one more.
\<close>

theorem replaceInFile_ambiguity_guard:
  "(readFile vfs raw = Inl NotFound \<longrightarrow> replaceInFile vfs raw old new = (vfs, Inl NotFound))
   \<and> (\<forall>c. readFile vfs raw = Inr c \<and> count_occurrences old c \<noteq> 1 \<longrightarrow>
         replaceInFile vfs raw old new = (vfs, Inl NotFound))
   \<and> (\<forall>e. snd (replaceInFile vfs raw old new) = Inl e \<longrightarrow>
         fst (replaceInFile vfs raw old new) = vfs
         \<and> readFile (fst (replaceInFile vfs raw old new)) raw = readFile vfs raw)
   \<and> (snd (replaceInFile vfs raw old new) = Inr ())
       = (\<exists>c. readFile vfs raw = Inr c \<and> count_occurrences old c = 1)
   \<and> (\<forall>c. readFile vfs raw = Inr c \<and> count_occurrences old c = 1 \<longrightarrow>
         (\<exists>pre post. c = pre @ old @ post
            \<and> readFile (fst (replaceInFile vfs raw old new)) raw = Inr (pre @ new @ post))
         \<and> version (fst (replaceInFile vfs raw old new)) = version vfs + 1)"
proof (intro conjI allI impI)
  assume "readFile vfs raw = Inl NotFound"
  then show "replaceInFile vfs raw old new = (vfs, Inl NotFound)"
    by (rule replaceInFile_unreadable)
next
  fix c assume "readFile vfs raw = Inr c \<and> count_occurrences old c \<noteq> 1"
  then show "replaceInFile vfs raw old new = (vfs, Inl NotFound)"
    by (simp add: replaceInFile_ambiguous)
next
  fix e assume e: "snd (replaceInFile vfs raw old new) = Inl e"
  show same: "fst (replaceInFile vfs raw old new) = vfs"
  proof (cases "readFile vfs raw")
    case (Inl e')
    then show ?thesis by (simp add: replaceInFile_unreadable)
  next
    case (Inr c)
    with e have "count_occurrences old c \<noteq> 1"
      using replaceInFile_unique [of vfs raw c old new] by auto
    with Inr show ?thesis by (simp add: replaceInFile_ambiguous)
  qed
  then show "readFile (fst (replaceInFile vfs raw old new)) raw = readFile vfs raw"
    by simp
next
  show "(snd (replaceInFile vfs raw old new) = Inr ())
       = (\<exists>c. readFile vfs raw = Inr c \<and> count_occurrences old c = 1)"
  proof (cases "readFile vfs raw")
    case (Inl e')
    then show ?thesis by (simp add: replaceInFile_unreadable)
  next
    case (Inr c)
    then show ?thesis
      by (cases "count_occurrences old c = 1")
        (simp_all add: replaceInFile_unique replaceInFile_ambiguous)
  qed
next
  fix c assume c: "readFile vfs raw = Inr c \<and> count_occurrences old c = 1"
  then obtain pre post where "c = pre @ old @ post"
    and "replace_first old new c = pre @ new @ post"
    using replace_first_splits [of old c new] by auto
  with c show "\<exists>pre post. c = pre @ old @ post
            \<and> readFile (fst (replaceInFile vfs raw old new)) raw = Inr (pre @ new @ post)"
    using replaceInFile_success [of vfs raw c old new] by auto
  from c show "version (fst (replaceInFile vfs raw old new)) = version vfs + 1"
    using replaceInFile_success [of vfs raw c old new] by simp
qed

theorem replaceInFile_ambiguity_guard_witness:
  "readFile (fst (createFile empty_vfs ''/f.txt'' ''abcabc'')) ''/f.txt'' = Inr ''abcabc''
   \<and> count_occurrences ''abc'' ''abcabc'' = 2
   \<and> replaceInFile (fst (createFile empty_vfs ''/f.txt'' ''abcabc'')) ''/f.txt'' ''abc'' ''X''
       = (fst (createFile empty_vfs ''/f.txt'' ''abcabc''), Inl NotFound)
   \<and> count_occurrences ''zz'' ''abcabc'' = 0
   \<and> replaceInFile (fst (createFile empty_vfs ''/f.txt'' ''abcabc'')) ''/f.txt'' ''zz'' ''X''
       = (fst (createFile empty_vfs ''/f.txt'' ''abcabc''), Inl NotFound)
   \<and> readFile (fst (createFile empty_vfs ''/f.txt'' ''abcabc'')) ''/g.txt'' = Inl NotFound
   \<and> replaceInFile (fst (createFile empty_vfs ''/f.txt'' ''abcabc'')) ''/g.txt'' ''abc'' ''X''
       = (fst (createFile empty_vfs ''/f.txt'' ''abcabc''), Inl NotFound)
   \<and> count_occurrences ''bca'' ''abcabc'' = 1
   \<and> snd (replaceInFile (fst (createFile empty_vfs ''/f.txt'' ''abcabc'')) ''/f.txt'' ''bca'' ''-'')
       = Inr ()
   \<and> version (fst (replaceInFile (fst (createFile empty_vfs ''/f.txt'' ''abcabc''))
        ''/f.txt'' ''bca'' ''-'')) = 2"
proof -
  define v where "v = fst (createFile empty_vfs ''/f.txt'' ''abcabc'')"
  have f: "readFile v ''/f.txt'' = Inr ''abcabc''" and ver: "version v = 1"
    by (simp_all add: v_def createFile_def readFile_def normalize_path_def normalize_segments_def
        segments_def render_def empty_vfs_def ensure_directory_def add_child_def
        new_directory_def new_file_def)
  have g: "readFile v ''/g.txt'' = Inl NotFound"
    by (simp add: v_def createFile_def readFile_def normalize_path_def normalize_segments_def
        segments_def render_def empty_vfs_def ensure_directory_def add_child_def
        new_directory_def new_file_def)
  have two: "count_occurrences ''abc'' ''abcabc'' = 2"
    and zero: "count_occurrences ''zz'' ''abcabc'' = 0"
    and one: "count_occurrences ''bca'' ''abcabc'' = 1"
    by simp_all
  have r2: "replaceInFile v ''/f.txt'' ''abc'' ''X'' = (v, Inl NotFound)"
    using replaceInFile_ambiguity_guard [of v "''/f.txt''" "''abc''" "''X''"] f two by simp
  have r0: "replaceInFile v ''/f.txt'' ''zz'' ''X'' = (v, Inl NotFound)"
    using replaceInFile_ambiguity_guard [of v "''/f.txt''" "''zz''" "''X''"] f zero by simp
  have rg: "replaceInFile v ''/g.txt'' ''abc'' ''X'' = (v, Inl NotFound)"
    using replaceInFile_ambiguity_guard [of v "''/g.txt''" "''abc''" "''X''"] g by simp
  have r1: "snd (replaceInFile v ''/f.txt'' ''bca'' ''-'') = Inr ()"
    and v1: "version (fst (replaceInFile v ''/f.txt'' ''bca'' ''-'')) = 2"
    using replaceInFile_ambiguity_guard [of v "''/f.txt''" "''bca''" "''-''"] f one ver
    by simp_all
  show ?thesis
    using f g two zero one r2 r0 rg r1 v1 by (simp add: v_def [symmetric])
qed

subsection \<open>Entry-point detection\<close>

lemma find_first:
  "find P xs = Some x \<Longrightarrow>
   \<exists>i<length xs. x = xs ! i \<and> P (xs ! i) \<and> (\<forall>j<i. \<not> P (xs ! j))"
  by (auto simp: find_Some_iff)

lemma detect_entry_point_Some:
  assumes "detect_entry_point files = Some p"
  shows "\<exists>i<length entry_candidates. p = entry_candidates ! i \<and> files p \<noteq> None
         \<and> (\<forall>j<i. files (entry_candidates ! j) = None)"
proof -
  from assms have "find (\<lambda>p. files p \<noteq> None) entry_candidates = Some p"
    by (simp only: detect_entry_point_def)
  then obtain i where i: "i < length entry_candidates" "p = entry_candidates ! i"
    "files (entry_candidates ! i) \<noteq> None" "\<forall>j<i. \<not> files (entry_candidates ! j) \<noteq> None"
    by (drule_tac find_first) blast
  then have "\<forall>j<i. files (entry_candidates ! j) = None" by simp
  with i show ?thesis by blast
qed

lemma detect_entry_point_None:
  "(detect_entry_point files = None) = (\<forall>c\<in>set entry_candidates. files c = None)"
  unfolding detect_entry_point_def by (auto simp: find_None_iff)

lemma detect_entry_point_only_index:
  assumes d: "dom files = {''/index.tsx''}"
  shows "detect_entry_point files = Some ''/index.tsx''"
proof -
  have in_dom: "\<And>p. (files p \<noteq> None) = (p \<in> dom files)"
    by (simp add: dom_def)
  have "files ''/index.tsx'' \<noteq> None"
    unfolding in_dom d by simp
  moreover have "files ''/App.jsx'' = None" "files ''/App.tsx'' = None" "files ''/index.jsx'' = None"
    using in_dom [of "''/App.jsx''"] in_dom [of "''/App.tsx''"] in_dom [of "''/index.jsx''"]
    unfolding d by simp_all
  ultimately show ?thesis
    by (simp add: detect_entry_point_def entry_candidates_def)
qed

text \<open>
  C7. Entry-point detection probes the candidate list in order and returns the first
  candidate that exists among the files: a detected entry point is a candidate that
  exists, and no earlier candidate does. It reports "no entry point" exactly when
  none of the candidates exists, and a tree whose only file is \<open>/index.tsx\<close>
  selects \<open>/index.tsx\<close>.
\<close>

theorem detect_entry_point_first_existing:
  "(\<forall>p. detect_entry_point files = Some p \<longrightarrow>
      (\<exists>i<length entry_candidates. p = entry_candidates ! i \<and> files p \<noteq> None
         \<and> (\<forall>j<i. files (entry_candidates ! j) = None)))
   \<and> (detect_entry_point files = None) = (\<forall>c\<in>set entry_candidates. files c = None)
   \<and> (dom files = {''/index.tsx''} \<longrightarrow> detect_entry_point files = Some ''/index.tsx'')"
  using detect_entry_point_Some [of files] detect_entry_point_None [of files]
    detect_entry_point_only_index [of files]
  by (intro conjI allI impI)

lemma preview_only_index:
  "preview_files (fst (createFile empty_vfs ''/index.tsx'' ''x'')) = [''/index.tsx'' \<mapsto> ''x'']"
proof -
  have "nodes (fst (createFile empty_vfs ''/index.tsx'' ''x'')) =
      [''/'' \<mapsto> \<lparr> path = ''/'', ntype = Directory, content = None,
                   childPaths = {|''/index.tsx''|} \<rparr>,
       ''/index.tsx'' \<mapsto> new_file ''/index.tsx'' ''x'']"
    by (simp add: createFile_def normalize_segments_def segments_def render_def empty_vfs_def
        ensure_directory_def add_child_def new_directory_def)
  then show ?thesis
    by (intro ext) (simp add: preview_files_def new_file_def)
qed

theorem detect_entry_point_first_existing_witness:
  "dom [''/index.tsx'' \<mapsto> ''x''] = {''/index.tsx''}
   \<and> detect_entry_point [''/index.tsx'' \<mapsto> ''x''] = Some ''/index.tsx''
   \<and> detect_entry_point (preview_files (fst (createFile empty_vfs ''/index.tsx'' ''x'')))
       = Some ''/index.tsx''
   \<and> detect_entry_point [''/main.js'' \<mapsto> ''x''] = None
   \<and> detect_entry_point (preview_files empty_vfs) = None
   \<and> detect_entry_point [''/index.jsx'' \<mapsto> ''a'', ''/App.tsx'' \<mapsto> ''b''] = Some ''/App.tsx''"
proof -
  have d: "dom [''/index.tsx'' \<mapsto> ''x''] = {''/index.tsx''}"
    by simp
  then have a: "detect_entry_point [''/index.tsx'' \<mapsto> ''x''] = Some ''/index.tsx''"
    using detect_entry_point_first_existing [of "[''/index.tsx'' \<mapsto> ''x'']"] by blast
  have b: "detect_entry_point [''/main.js'' \<mapsto> ''x''] = None"
    using detect_entry_point_first_existing [of "[''/main.js'' \<mapsto> ''x'']"]
    by (simp add: entry_candidates_def)
  have e: "detect_entry_point (preview_files empty_vfs) = None"
    using detect_entry_point_first_existing [of "preview_files empty_vfs"]
    by (simp add: entry_candidates_def preview_files_def empty_vfs_def new_directory_def)
  have c: "detect_entry_point [''/index.jsx'' \<mapsto> ''a'', ''/App.tsx'' \<mapsto> ''b''] = Some ''/App.tsx''"
    by (simp add: detect_entry_point_def entry_candidates_def)
  from d a b c e show ?thesis
    by (simp add: preview_only_index)
qed

end
